theory Spec2Isabelle
  imports Complex_Main "HOL-Library.AList"
begin

section \<open>Strings and numbers as the JavaScript code uses them\<close>

text \<open>
  A JavaScript string is modelled as a \<^typ>\<open>string\<close>, its \<open>length\<close> as the
  length of the list. Error objects are represented by their \<open>message\<close>.
  Clock readings (\<open>Date.now()\<close>, \<open>new Date()\<close>) are integers, in
  milliseconds; every operation that reads the clock takes the reading as its
  argument \<open>now\<close>.
\<close>

type_synonym error = string

definition digit_char :: "nat \<Rightarrow> char" where
  "digit_char d = char_of (48 + d)"

text \<open>Decimal rendering of a number inside a template string.\<close>

function show_nat :: "nat \<Rightarrow> string" where
  "show_nat n = (if n < 10 then [digit_char n] else show_nat (n div 10) @ [digit_char (n mod 10)])"
  by pat_completeness auto
termination
  by (relation "measure id") auto

declare show_nat.simps [simp del]

definition show_int :: "int \<Rightarrow> string" where
  "show_int i = (if i < 0 then CHR ''-'' # show_nat (nat (- i)) else show_nat (nat i))"

section \<open>Job manager (utils/jobs/manager.js)\<close>

datatype status = Pending | Running | Completed | Failed

record log_entry =
  log_timestamp :: int
  log_level :: string
  log_message :: string
  log_jobId :: string
  log_projectId :: string

record delta_stats =
  ds_skipped :: nat
  ds_updated :: nat
  ds_added :: nat
  ds_deleted :: nat
  ds_total :: nat

record index_result =
  res_success :: bool
  res_filesProcessed :: nat
  res_chunksIndexed :: nat
  res_projectId :: string
  res_filesTotal :: nat
  res_deltaStats :: "delta_stats option"

record job_stats =
  st_filesTotal :: nat
  st_filesProcessed :: nat
  st_chunksIndexed :: nat
  st_deltaStats :: "delta_stats option"

record job_params =
  p_directoryPath :: string
  p_excludePatterns :: "string list"

text \<open>
  The job object. \<open>job_history\<close> is not a field of the JavaScript object: it
  records, in order, every value that has been assigned to \<open>progress\<close>, so
  that the sequence of progress values a polling client can sample is a value
  of the model.
\<close>

record job =
  job_id :: string
  job_type :: string
  job_projectId :: string
  job_status :: status
  job_progress :: rat
  job_startTime :: int
  job_endTime :: "int option"
  job_duration :: "int option"
  job_result :: "index_result option"
  job_error :: "error option"
  job_params :: job_params
  job_logs :: "log_entry list"
  job_stats :: job_stats
  job_history :: "rat list"

text \<open>\<open>this.jobs\<close> is a \<open>Map\<close>: an association list in insertion order.\<close>

record job_manager =
  jm_jobs :: "(string \<times> job) list"
  jm_jobId :: nat

definition new_JobManager :: job_manager where
  "new_JobManager = \<lparr>jm_jobs = [], jm_jobId = 0\<rparr>"

definition getJob :: "job_manager \<Rightarrow> string \<Rightarrow> job option" where
  "getJob jm jid = map_of (jm_jobs jm) jid"

definition createJob :: "int \<Rightarrow> string \<Rightarrow> string \<Rightarrow> job_params \<Rightarrow> job_manager \<Rightarrow> job \<times> job_manager" where
  "createJob now type projectId params jm =
     (let n = jm_jobId jm + 1;
          jobId = ''job_'' @ show_nat n @ ''_'' @ show_int now;
          job = \<lparr>job_id = jobId, job_type = type, job_projectId = projectId,
                 job_status = Pending, job_progress = 0, job_startTime = now,
                 job_endTime = None, job_duration = None, job_result = None,
                 job_error = None, job_params = params, job_logs = [],
                 job_stats = \<lparr>st_filesTotal = 0, st_filesProcessed = 0,
                              st_chunksIndexed = 0, st_deltaStats = None\<rparr>,
                 job_history = [0]\<rparr>
      in (job, \<lparr>jm_jobs = AList.update jobId job (jm_jobs jm), jm_jobId = n\<rparr>))"

text \<open>
  The \<open>updates\<close> object of \<open>updateJob\<close>: the properties that the callers in
  this repository assign, each of them optional.
\<close>

record job_updates =
  u_status :: "status option"
  u_result :: "index_result option"
  u_error :: "error option"
  u_progress :: "rat option"
  u_stats :: "job_stats option"

definition no_updates :: job_updates where
  "no_updates = \<lparr>u_status = None, u_result = None, u_error = None,
                  u_progress = None, u_stats = None\<rparr>"

text \<open>\<open>Object.assign(job, updates)\<close>.\<close>

definition assign_updates :: "job \<Rightarrow> job_updates \<Rightarrow> job" where
  "assign_updates job u =
     (let j1 = (case u_status u of None \<Rightarrow> job | Some s \<Rightarrow> job\<lparr>job_status := s\<rparr>);
          j2 = (case u_result u of None \<Rightarrow> j1 | Some r \<Rightarrow> j1\<lparr>job_result := Some r\<rparr>);
          j3 = (case u_error u of None \<Rightarrow> j2 | Some e \<Rightarrow> j2\<lparr>job_error := Some e\<rparr>);
          j4 = (case u_progress u of None \<Rightarrow> j3
                | Some p \<Rightarrow> j3\<lparr>job_progress := p, job_history := job_history j3 @ [p]\<rparr>);
          j5 = (case u_stats u of None \<Rightarrow> j4 | Some s \<Rightarrow> j4\<lparr>job_stats := s\<rparr>)
      in j5)"

definition updateJob :: "int \<Rightarrow> string \<Rightarrow> job_updates \<Rightarrow> job_manager \<Rightarrow> job option \<times> job_manager" where
  "updateJob now jobId updates jm =
     (case map_of (jm_jobs jm) jobId of
        None \<Rightarrow> (None, jm)
      | Some job \<Rightarrow>
          (let j1 = assign_updates job updates;
               j2 = (if u_status updates = Some Completed \<or> u_status updates = Some Failed
                     then j1\<lparr>job_endTime := Some now,
                             job_duration := Some (now - job_startTime j1)\<rparr>
                     else j1)
           in (Some j2, jm\<lparr>jm_jobs := AList.update jobId j2 (jm_jobs jm)\<rparr>)))"

text \<open>
  \<open>job.logs.push(logEntry)\<close>, then \<open>splice(0, length - 50)\<close> when the array
  holds more than 50 entries. The write to the server log is outside the model.
\<close>

definition addJobLog :: "int \<Rightarrow> string \<Rightarrow> string \<Rightarrow> string \<Rightarrow> job_manager \<Rightarrow> job_manager" where
  "addJobLog now jobId message level jm =
     (case map_of (jm_jobs jm) jobId of
        None \<Rightarrow> jm
      | Some job \<Rightarrow>
          (let logEntry = \<lparr>log_timestamp = now, log_level = level, log_message = message,
                           log_jobId = jobId, log_projectId = job_projectId job\<rparr>;
               pushed = job_logs job @ [logEntry];
               kept = (if length pushed > 50 then drop (length pushed - 50) pushed else pushed)
           in jm\<lparr>jm_jobs := AList.update jobId (job\<lparr>job_logs := kept\<rparr>) (jm_jobs jm)\<rparr>))"

text \<open>
  \<open>updateProgress\<close>: the clamped value is assigned; a message, when given
  and not the empty string, is logged.
\<close>

definition updateProgress :: "int \<Rightarrow> string \<Rightarrow> rat \<Rightarrow> string option \<Rightarrow> job_manager \<Rightarrow> job_manager" where
  "updateProgress now jobId progress message jm =
     (case map_of (jm_jobs jm) jobId of
        None \<Rightarrow> jm
      | Some job \<Rightarrow>
          (let p = min 100 (max 0 progress);
               jm1 = jm\<lparr>jm_jobs := AList.update jobId
                         (job\<lparr>job_progress := p, job_history := job_history job @ [p]\<rparr>)
                         (jm_jobs jm)\<rparr>
           in (case message of
                 None \<Rightarrow> jm1
               | Some m \<Rightarrow> if m = [] then jm1 else addJobLog now jobId m ''info'' jm1)))"

text \<open>Stable insertion of a job by descending start time, for \<open>getAllJobs\<close>.\<close>

fun insert_newest :: "job \<Rightarrow> job list \<Rightarrow> job list" where
  "insert_newest x [] = [x]"
| "insert_newest x (y # ys) =
     (if job_startTime y - job_startTime x \<le> 0 then x # y # ys else y # insert_newest x ys)"

definition getAllJobs :: "job_manager \<Rightarrow> job list" where
  "getAllJobs jm = foldr insert_newest (map snd (jm_jobs jm)) []"

definition getActiveJobs :: "job_manager \<Rightarrow> job list" where
  "getActiveJobs jm =
     filter (\<lambda>job. job_status job = Pending \<or> job_status job = Running) (map snd (jm_jobs jm))"

text \<open>
  \<open>cleanupOldJobs\<close>: \<open>cutoff = now - maxAge\<close>; an entry is deleted when
  \<open>job.endTime && job.endTime < cutoff\<close>. The result is the number of deleted
  entries and the registry without them.
\<close>

definition is_old :: "int \<Rightarrow> job \<Rightarrow> bool" where
  "is_old cutoff job = (case job_endTime job of None \<Rightarrow> False | Some e \<Rightarrow> e < cutoff)"

definition cleanupOldJobs :: "int \<Rightarrow> int \<Rightarrow> job_manager \<Rightarrow> nat \<times> job_manager" where
  "cleanupOldJobs now maxAge jm =
     (let cutoff = now - maxAge;
          cleaned = length (filter (\<lambda>(jobId, job). is_old cutoff job) (jm_jobs jm))
      in (cleaned, jm\<lparr>jm_jobs := filter (\<lambda>(jobId, job). \<not> is_old cutoff job) (jm_jobs jm)\<rparr>))"

definition default_maxAge :: int where
  "default_maxAge = 24 * 60 * 60 * 1000"

section \<open>Chunking (FileIndexer.chunkContent)\<close>

definition NL :: char where
  "NL = CHR 0x0A"

text \<open>\<open>content.split('\n')\<close>: always at least one line.\<close>

fun split_nl :: "string \<Rightarrow> string list" where
  "split_nl [] = [[]]"
| "split_nl (c # cs) =
     (if c = NL then [] # split_nl cs
      else (let r = split_nl cs in (c # hd r) # tl r))"

text \<open>
  The characters that \<open>String.prototype.trim\<close> removes, among the code
  units below 256: tab, line feed, vertical tab, form feed, carriage return,
  space and no-break space.
\<close>

definition is_ws :: "char \<Rightarrow> bool" where
  "is_ws c = (c \<in> set [CHR 0x09, CHR 0x0A, CHR 0x0B, CHR 0x0C, CHR 0x0D, CHR 0x20, CHR 0xA0])"

definition trim :: "string \<Rightarrow> string" where
  "trim s = rev (dropWhile is_ws (rev (dropWhile is_ws s)))"

record chunk =
  ch_content :: string
  ch_startLine :: nat
  ch_endLine :: nat

definition maxChunkSize :: nat where
  "maxChunkSize = 2000"

definition mk_chunk :: "string \<Rightarrow> string \<Rightarrow> nat \<Rightarrow> nat \<Rightarrow> chunk" where
  "mk_chunk filename currentChunk startLine currentLine =
     \<lparr>ch_content = ''File: '' @ filename @ [NL] @ ''Lines '' @ show_nat startLine @ ''-''
                    @ show_nat (currentLine - 1) @ '':'' @ [NL, NL] @ currentChunk,
      ch_startLine = startLine,
      ch_endLine = currentLine - 1\<rparr>"

text \<open>
  The \<open>for (const line of lines)\<close> loop, on the remaining lines and the
  loop variables \<open>chunks\<close>, \<open>currentChunk\<close>, \<open>startLine\<close>, \<open>currentLine\<close>.
\<close>

fun chunk_loop :: "string \<Rightarrow> string list \<Rightarrow> chunk list \<Rightarrow> string \<Rightarrow> nat \<Rightarrow> nat
                    \<Rightarrow> chunk list \<times> string \<times> nat \<times> nat" where
  "chunk_loop filename [] chunks currentChunk startLine currentLine =
     (chunks, currentChunk, startLine, currentLine)"
| "chunk_loop filename (line # rest) chunks currentChunk startLine currentLine =
     (if length currentChunk + length line > maxChunkSize \<and> length currentChunk > 0
      then chunk_loop filename rest
             (chunks @ [mk_chunk filename currentChunk startLine currentLine])
             (line @ [NL]) currentLine (currentLine + 1)
      else chunk_loop filename rest chunks
             (currentChunk @ line @ [NL]) startLine (currentLine + 1))"

text \<open>
  The chunks of the line-accumulation process: the loop, then the final chunk
  when \<open>currentChunk.trim()\<close> is not empty.
\<close>

definition accumulate_chunks :: "string \<Rightarrow> string \<Rightarrow> chunk list" where
  "accumulate_chunks content filename =
     (case chunk_loop filename (split_nl content) [] [] 1 1 of
        (chunks, currentChunk, startLine, currentLine) \<Rightarrow>
          if trim currentChunk \<noteq> []
          then chunks @ [mk_chunk filename currentChunk startLine currentLine]
          else chunks)"

definition chunkContent :: "string \<Rightarrow> string \<Rightarrow> chunk list" where
  "chunkContent content filename =
     (let chunks = accumulate_chunks content filename
      in if length chunks > 0 then chunks
         else [\<lparr>ch_content = ''File: '' @ filename @ [NL, NL] @ content,
                 ch_startLine = 1,
                 ch_endLine = length (split_nl content)\<rparr>])"

text \<open>Line ranges that follow one another without gap or overlap, from line \<open>s\<close>.\<close>

fun contiguous_from :: "nat \<Rightarrow> chunk list \<Rightarrow> bool" where
  "contiguous_from s [] = True"
| "contiguous_from s (c # cs) =
     (ch_startLine c = s \<and> s \<le> ch_endLine c \<and> contiguous_from (ch_endLine c + 1) cs)"

text \<open>The line with the 1-based number \<open>k\<close>.\<close>

definition line_at :: "string \<Rightarrow> nat \<Rightarrow> string" where
  "line_at content k = split_nl content ! (k - 1)"

definition totalLines :: "string \<Rightarrow> nat" where
  "totalLines content = length (split_nl content)"

section \<open>Vector store (utils/vector-store/mongovs.js)\<close>

text \<open>
  A JavaScript number that results from a division: \<open>0 / 0\<close> is \<open>NaN\<close>.
  Arithmetic is over the reals; rounding is outside the model.
\<close>

datatype jsnum = NaN | Num real

text \<open>
  The \<open>embedding\<close> field of a stored document: absent, \<open>null\<close>, or an
  array of numbers.
\<close>

datatype embedding = NoField | NullValue | Vector "real list"

fun vec_of :: "embedding \<Rightarrow> real list option" where
  "vec_of (Vector v) = Some v"
| "vec_of _ = None"

text \<open>
  \<open>cosineSimilarity\<close>. An argument that is \<open>null\<close> or \<open>undefined\<close> is \<open>None\<close>.
  Over the reals the product of the norms is zero only when the dot product is
  zero as well, where JavaScript computes \<open>0 / 0\<close>.
\<close>

definition cosineSimilarity :: "real list option \<Rightarrow> real list option \<Rightarrow> jsnum" where
  "cosineSimilarity a b =
     (case (a, b) of
        (Some x, Some y) \<Rightarrow>
          if length x \<noteq> length y then Num 0
          else (let dot = foldl (\<lambda>sum (v, w). sum + v * w) 0 (zip x y);
                    normA = sqrt (foldl (\<lambda>sum v. sum + v * v) 0 x);
                    normB = sqrt (foldl (\<lambda>sum v. sum + v * v) 0 y)
                in if normA * normB = 0 then NaN else Num (dot / (normA * normB)))
      | _ \<Rightarrow> Num 0)"

record doc_metadata =
  md_fileSize :: nat
  md_fileType :: string
  md_lastModified :: int
  md_contentHash :: string
  md_startLine :: nat
  md_endLine :: nat

text \<open>A document as the indexer hands it to \<open>addDocuments\<close>.\<close>

record new_document =
  nd_projectId :: string
  nd_filePath :: string
  nd_chunkIndex :: nat
  nd_totalChunks :: nat
  nd_content :: string
  nd_embedding :: "real list"
  nd_metadata :: doc_metadata

text \<open>A document of the collection; \<open>doc_id\<close> stands for the generated \<open>ObjectId\<close>.\<close>

record document =
  doc_id :: nat
  doc_projectId :: string
  doc_filePath :: string
  doc_chunkIndex :: nat
  doc_totalChunks :: nat
  doc_content :: string
  doc_embedding :: embedding
  doc_metadata :: doc_metadata
  doc_createdAt :: int

record project_metadata =
  pm_projectId :: string
  pm_directoryPath :: string
  pm_excludePatterns :: "string list"
  pm_lastIndexed :: int
  pm_updatedAt :: int
  pm_createdAt :: int

text \<open>
  The two collections, \<open>documents\<close> and \<open>project_metadata\<close>, and the
  counter that generates document identifiers.
\<close>

record vector_store =
  vs_documents :: "document list"
  vs_next_id :: nat
  vs_projects :: "(string \<times> project_metadata) list"

text \<open>
  \<open>addDocuments\<close>: \<open>insertMany\<close> appends the documents. \<open>totalChunks || 1\<close>
  turns 0 into 1; the indexer never sets \<open>id\<close> or \<open>text\<close>.
\<close>

fun to_insert :: "int \<Rightarrow> nat \<Rightarrow> new_document list \<Rightarrow> document list" where
  "to_insert now n [] = []"
| "to_insert now n (d # ds) =
     \<lparr>doc_id = n, doc_projectId = nd_projectId d, doc_filePath = nd_filePath d,
      doc_chunkIndex = nd_chunkIndex d,
      doc_totalChunks = (if nd_totalChunks d = 0 then 1 else nd_totalChunks d),
      doc_content = nd_content d, doc_embedding = Vector (nd_embedding d),
      doc_metadata = nd_metadata d, doc_createdAt = now\<rparr> # to_insert now (n + 1) ds"

definition addDocuments :: "int \<Rightarrow> new_document list \<Rightarrow> vector_store \<Rightarrow> vector_store" where
  "addDocuments now docs vs =
     vs\<lparr>vs_documents := vs_documents vs @ to_insert now (vs_next_id vs) docs,
        vs_next_id := vs_next_id vs + length docs\<rparr>"

record search_result =
  sr_id :: nat
  sr_projectId :: string
  sr_filePath :: string
  sr_content :: string
  sr_metadata :: doc_metadata
  sr_score :: jsnum

definition score_doc :: "real list option \<Rightarrow> document \<Rightarrow> search_result" where
  "score_doc queryEmbedding doc =
     \<lparr>sr_id = doc_id doc, sr_projectId = doc_projectId doc, sr_filePath = doc_filePath doc,
      sr_content = doc_content doc, sr_metadata = doc_metadata doc,
      sr_score = cosineSimilarity queryEmbedding (vec_of (doc_embedding doc))\<rparr>"

text \<open>
  The comparator \<open>(a, b) => b.score - a.score\<close> is positive when \<open>b\<close> has the
  larger score; a \<open>NaN\<close> difference counts as 0. \<open>Array.prototype.sort\<close> is
  stable: the model is insertion sort, which keeps the order of elements the
  comparator does not separate.
\<close>

fun cmp_positive :: "search_result \<Rightarrow> search_result \<Rightarrow> bool" where
  "cmp_positive a b =
     (case (sr_score a, sr_score b) of (Num x, Num y) \<Rightarrow> y - x > 0 | _ \<Rightarrow> False)"

fun insert_by_score :: "search_result \<Rightarrow> search_result list \<Rightarrow> search_result list" where
  "insert_by_score a [] = [a]"
| "insert_by_score a (b # bs) =
     (if cmp_positive a b then b # insert_by_score a bs else a # b # bs)"

definition sort_by_score :: "search_result list \<Rightarrow> search_result list" where
  "sort_by_score xs = foldr insert_by_score xs []"

text \<open>\<open>xs.slice(0, end)\<close> for an integer \<open>end\<close>: a negative end counts from the back.\<close>

definition slice0 :: "int \<Rightarrow> 'a list \<Rightarrow> 'a list" where
  "slice0 e xs =
     (let len = int (length xs);
          k = (if e < 0 then max (len + e) 0 else min e len)
      in take (nat k) xs)"

text \<open>
  \<open>search(queryEmbedding, topK = 3, projectId = null)\<close>. The filter keeps the
  documents whose \<open>embedding\<close> field exists and, when \<open>projectId\<close> is given
  and not empty, whose project is \<open>projectId\<close>.
\<close>

definition matches_filter :: "string option \<Rightarrow> document \<Rightarrow> bool" where
  "matches_filter projectId doc =
     (doc_embedding doc \<noteq> NoField \<and>
      (case projectId of None \<Rightarrow> True | Some p \<Rightarrow> p = [] \<or> doc_projectId doc = p))"

definition search :: "vector_store \<Rightarrow> real list option \<Rightarrow> int option \<Rightarrow> string option
                      \<Rightarrow> search_result list" where
  "search vs queryEmbedding topK projectId =
     (let k = (case topK of None \<Rightarrow> 3 | Some t \<Rightarrow> t);
          allDocs = filter (matches_filter projectId) (vs_documents vs);
          scored = map (score_doc queryEmbedding) allDocs
      in slice0 k (sort_by_score scored))"

text \<open>\<open>collection.distinct\<close>: the distinct values, in order of first occurrence.\<close>

record project_stats =
  ps_projectId :: string
  ps_totalDocuments :: nat
  ps_totalFiles :: nat
  ps_files :: "string list"

definition getProjectStats :: "vector_store \<Rightarrow> string \<Rightarrow> project_stats" where
  "getProjectStats vs projectId =
     (let docs = filter (\<lambda>d. doc_projectId d = projectId) (vs_documents vs);
          files = remdups (map doc_filePath docs)
      in \<lparr>ps_projectId = projectId, ps_totalDocuments = length docs,
          ps_totalFiles = length files, ps_files = files\<rparr>)"

text \<open>
  The rows of the aggregation in \<open>getExistingFiles\<close>: one row per file path of
  the project (\<open>_id\<close>), with the metadata of the first document of that path.
\<close>

record file_info =
  fi_fileSize :: nat
  fi_lastModified :: int
  fi_contentHash :: string

fun group_first :: "document list \<Rightarrow> (string \<times> file_info) list" where
  "group_first [] = []"
| "group_first (d # ds) =
     (doc_filePath d,
      \<lparr>fi_fileSize = md_fileSize (doc_metadata d),
       fi_lastModified = md_lastModified (doc_metadata d),
       fi_contentHash = md_contentHash (doc_metadata d)\<rparr>)
     # filter (\<lambda>(p, i). p \<noteq> doc_filePath d) (group_first ds)"

text \<open>
  The lookup object \<open>fileMap = {}\<close> that \<open>getExistingFiles\<close> returns. It is a
  plain object whose prototype is \<open>Object.prototype\<close>: \<open>obj_own\<close> are its own
  properties in the order of their creation, and \<open>obj_proto\<close> is \<open>None\<close> as long
  as the prototype is \<open>Object.prototype\<close>. The assignment \<open>fileMap[key] = record\<close>
  creates or overwrites an own property, except for the key \<open>__proto__\<close>: that
  assignment runs the setter inherited from \<open>Object.prototype\<close>, which makes the
  record the prototype of the object and creates no own property.
\<close>

record js_object =
  obj_own :: "(string \<times> file_info) list"
  obj_proto :: "file_info option"

definition empty_object :: js_object where
  "empty_object = \<lparr>obj_own = [], obj_proto = None\<rparr>"

definition assign_property :: "string \<Rightarrow> file_info \<Rightarrow> js_object \<Rightarrow> js_object" where
  "assign_property key v obj =
     (if key = ''__proto__'' then obj\<lparr>obj_proto := Some v\<rparr>
      else obj\<lparr>obj_own := AList.update key v (obj_own obj)\<rparr>)"

definition getExistingFiles :: "vector_store \<Rightarrow> string \<Rightarrow> js_object" where
  "getExistingFiles vs projectId =
     foldl (\<lambda>fileMap (path, info). assign_property path info fileMap) empty_object
       (group_first (filter (\<lambda>d. doc_projectId d = projectId) (vs_documents vs)))"

text \<open>
  The values that a property read \<open>existingFiles[file]\<close> can deliver: a record
  of the snapshot, \<open>undefined\<close>, a member of \<open>Object.prototype\<close> (a function, or
  \<open>Object.prototype\<close> itself for the key \<open>__proto__\<close>), or, when a record has
  become the prototype, the value of one of its three fields.
\<close>

datatype js_value = JsUndefined | JsRecord file_info | JsBuiltin
  | JsNumber nat | JsString string | JsDate int

text \<open>The names of the properties of \<open>Object.prototype\<close>, the accessor \<open>__proto__\<close> apart.\<close>

definition object_prototype_keys :: "string list" where
  "object_prototype_keys =
     [''constructor'', ''__defineGetter__'', ''__defineSetter__'', ''hasOwnProperty'',
      ''__lookupGetter__'', ''__lookupSetter__'', ''isPrototypeOf'', ''propertyIsEnumerable'',
      ''toString'', ''valueOf'', ''toLocaleString'']"

text \<open>The own properties of a record \<open>{fileSize, lastModified, contentHash}\<close>.\<close>

definition record_property :: "file_info \<Rightarrow> string \<Rightarrow> js_value option" where
  "record_property r key =
     (if key = ''fileSize'' then Some (JsNumber (fi_fileSize r))
      else if key = ''lastModified'' then Some (JsDate (fi_lastModified r))
      else if key = ''contentHash'' then Some (JsString (fi_contentHash r))
      else None)"

text \<open>
  The property read \<open>obj[key]\<close>: an own property first, then the prototype
  chain. The getter of \<open>__proto__\<close> returns the prototype of the object.
\<close>

definition get_property :: "js_object \<Rightarrow> string \<Rightarrow> js_value" where
  "get_property obj key =
     (case map_of (obj_own obj) key of
        Some r \<Rightarrow> JsRecord r
      | None \<Rightarrow>
          (case (case obj_proto obj of None \<Rightarrow> None | Some p \<Rightarrow> record_property p key) of
             Some v \<Rightarrow> v
           | None \<Rightarrow>
               if key = ''__proto__''
               then (case obj_proto obj of None \<Rightarrow> JsBuiltin | Some p \<Rightarrow> JsRecord p)
               else if key \<in> set object_prototype_keys then JsBuiltin
               else JsUndefined))"

text \<open>The value as a condition.\<close>

fun truthy :: "js_value \<Rightarrow> bool" where
  "truthy JsUndefined = False"
| "truthy (JsRecord r) = True"
| "truthy JsBuiltin = True"
| "truthy (JsNumber n) = (n \<noteq> 0)"
| "truthy (JsString s) = (s \<noteq> [])"
| "truthy (JsDate t) = True"

text \<open>
  \<open>Object.keys\<close>: the own property names, those that are array indices (the
  canonical decimal numerals below \<open>2^32 - 1\<close>) first in ascending numeric
  order, then the other names in the order of their creation.
\<close>

definition read_nat :: "string \<Rightarrow> nat" where
  "read_nat s = foldl (\<lambda>n c. 10 * n + (of_char c - 48)) 0 s"

definition is_array_index :: "string \<Rightarrow> bool" where
  "is_array_index key =
     (key \<noteq> [] \<and> list_all (\<lambda>c. c \<in> set ''0123456789'') key
      \<and> (length key = 1 \<or> hd key \<noteq> CHR ''0'') \<and> read_nat key < 2 ^ 32 - 1)"

definition object_keys :: "js_object \<Rightarrow> string list" where
  "object_keys obj =
     (let names = map fst (obj_own obj)
      in sort_key read_nat (filter is_array_index names)
         @ filter (\<lambda>key. \<not> is_array_index key) names)"

text \<open>\<open>removeFileChunks\<close>: \<open>deleteMany({projectId, filePath})\<close> and the deleted count.\<close>

definition removeFileChunks :: "string \<Rightarrow> string \<Rightarrow> vector_store \<Rightarrow> nat \<times> vector_store" where
  "removeFileChunks projectId filePath vs =
     (length (filter (\<lambda>d. doc_projectId d = projectId \<and> doc_filePath d = filePath) (vs_documents vs)),
      vs\<lparr>vs_documents :=
           filter (\<lambda>d. \<not> (doc_projectId d = projectId \<and> doc_filePath d = filePath)) (vs_documents vs)\<rparr>)"

text \<open>
  \<open>saveProjectMetadata\<close>: an upsert; \<open>createdAt\<close> is set on insertion only.
\<close>

definition saveProjectMetadata :: "int \<Rightarrow> string \<Rightarrow> string \<Rightarrow> string list \<Rightarrow> vector_store
                                   \<Rightarrow> vector_store" where
  "saveProjectMetadata now projectId directoryPath excludePatterns vs =
     (let created = (case map_of (vs_projects vs) projectId of
                       None \<Rightarrow> now | Some m \<Rightarrow> pm_createdAt m);
          metadata = \<lparr>pm_projectId = projectId, pm_directoryPath = directoryPath,
                       pm_excludePatterns = excludePatterns, pm_lastIndexed = now,
                       pm_updatedAt = now, pm_createdAt = created\<rparr>
      in vs\<lparr>vs_projects := AList.update projectId metadata (vs_projects vs)\<rparr>)"

section \<open>File indexer (FileIndexer)\<close>

subsection \<open>Text classification\<close>

text \<open>
  \<open>path.extname\<close> on a POSIX path: from the last dot of the last path
  segment, empty when that segment has no dot or only a leading one.
\<close>

definition basename :: "string \<Rightarrow> string" where
  "basename p = rev (takeWhile (\<lambda>c. c \<noteq> CHR ''/'') (rev p))"

definition extname :: "string \<Rightarrow> string" where
  "extname p =
     (let b = basename p;
          r = takeWhile (\<lambda>c. c \<noteq> CHR ''.'') (rev b)
      in if length r = length b \<or> length r + 1 = length b \<or> b = ''..'' then []
         else CHR ''.'' # rev r)"

text \<open>\<open>toLowerCase\<close> on code units below 256.\<close>

definition lower_char :: "char \<Rightarrow> char" where
  "lower_char c =
     (let n = (of_char c :: nat)
      in if (65 \<le> n \<and> n \<le> 90) \<or> (192 \<le> n \<and> n \<le> 214) \<or> (216 \<le> n \<and> n \<le> 222)
         then char_of (n + 32) else c)"

definition toLowerCase :: "string \<Rightarrow> string" where
  "toLowerCase s = map lower_char s"

definition textExtensions :: "string list" where
  "textExtensions =
     [''.js'', ''.ts'', ''.jsx'', ''.tsx'',
      ''.py'',
      ''.java'',
      ''.c'', ''.cpp'', ''.h'', ''.hpp'',
      ''.cs'',
      ''.php'',
      ''.rb'',
      ''.go'',
      ''.rs'',
      ''.swift'',
      ''.kt'',
      ''.scala'',
      ''.clj'',
      ''.r'', ''.R'',
      ''.m'',
      ''.pl'',
      ''.html'', ''.css'', ''.scss'', ''.sass'', ''.less'',
      ''.vue'', ''.svelte'', ''.astro'',
      ''.xml'', ''.json'', ''.yaml'', ''.yml'',
      ''.toml'', ''.ini'', ''.conf'', ''.config'',
      ''.md'', ''.txt'',
      ''.sql'',
      ''.sh'', ''.bash'', ''.zsh'', ''.fish'',
      ''.ps1'', ''.bat'',
      ''.dockerfile'', ''.gitignore'', ''.env.example'',
      ''.lock'']"

definition isTextFile :: "string \<Rightarrow> bool" where
  "isTextFile filename =
     (let ext = toLowerCase (extname filename)
      in ext \<in> set textExtensions \<or> extname filename = [])"

definition defaultExcludes :: "string list" where
  "defaultExcludes =
     [''node_modules/**'', ''dist/**'', ''build/**'', ''.git/**'', ''.next/**'', ''.nuxt/**'',
      ''coverage/**'', ''*.log'', ''*.tmp'', ''*.temp'', ''.DS_Store'', ''Thumbs.db'',
      ''*.min.js'', ''*.min.css'', ''package-lock.json'', ''yarn.lock'', ''pnpm-lock.yaml'',
      ''.env*'', ''target/**'', ''bin/**'', ''obj/**'']"

subsection \<open>The external collaborators\<close>

text \<open>
  What the run receives from outside: the directory listing of \<open>glob\<close>,
  \<open>fs.stat\<close> (its \<open>mtime\<close>) and \<open>fs.readFile\<close>, the MD5 digest, the
  embedding provider, and for each call on the document store whether it
  rejects, with the error. \<open>e_now\<close> is the clock reading during the run.
  A call that rejects is \<open>Inl\<close> of the error or \<open>Some\<close> error.
\<close>

record env =
  e_glob :: "string \<Rightarrow> string list \<Rightarrow> error + string list"
  e_stat :: "string \<Rightarrow> error + int"
  e_readFile :: "string \<Rightarrow> error + string"
  e_md5 :: "string \<Rightarrow> string"
  e_getEmbedding :: "string \<Rightarrow> error + real list"
  e_getExistingFiles_error :: "string \<Rightarrow> error option"
  e_removeFileChunks_error :: "string \<Rightarrow> string \<Rightarrow> error option"
  e_addDocuments_error :: "error option"
  e_saveProjectMetadata_error :: "error option"
  e_now :: int

text \<open>\<open>path.join(dirPath, file)\<close>, without the normalisation of the result.\<close>

definition path_join :: "string \<Rightarrow> string \<Rightarrow> string" where
  "path_join dirPath file = dirPath @ ''/'' @ file"

fun join_with :: "string \<Rightarrow> string list \<Rightarrow> string" where
  "join_with sep [] = []"
| "join_with sep [x] = x"
| "join_with sep (x # y # ys) = x @ sep @ join_with sep (y # ys)"

subsection \<open>Logging and progress callbacks\<close>

text \<open>
  \<open>jobId && this.jobManager\<close> decides where \<open>logMethod\<close> and
  \<open>updateProgress\<close> go: to the job, or to the server log (outside the model)
  and nowhere.
\<close>

definition job_sink :: "bool \<Rightarrow> string option \<Rightarrow> string option" where
  "job_sink has_jobManager jobId =
     (case jobId of
        None \<Rightarrow> None
      | Some j \<Rightarrow> if j \<noteq> [] \<and> has_jobManager then Some j else None)"

definition logMethod :: "int \<Rightarrow> string option \<Rightarrow> string \<Rightarrow> string \<Rightarrow> job_manager \<Rightarrow> job_manager" where
  "logMethod now sink msg level jm =
     (case sink of None \<Rightarrow> jm | Some jobId \<Rightarrow> addJobLog now jobId msg level jm)"

definition reportProgress :: "int \<Rightarrow> string option \<Rightarrow> rat \<Rightarrow> string \<Rightarrow> job_manager \<Rightarrow> job_manager" where
  "reportProgress now sink progress message jm =
     (case sink of None \<Rightarrow> jm | Some jobId \<Rightarrow> updateProgress now jobId progress (Some message) jm)"

subsection \<open>The loop over the files\<close>

record loop_state =
  ls_jm :: job_manager
  ls_vs :: vector_store
  ls_documents :: "new_document list"
  ls_processed :: nat
  ls_skipped :: nat
  ls_updated :: nat
  ls_added :: nat
  ls_currentFiles :: "string list"
  ls_fileIndex :: nat

text \<open>The \<open>catch\<close> of the \<open>try\<close> around one file.\<close>

definition file_error :: "env \<Rightarrow> string option \<Rightarrow> string \<Rightarrow> error \<Rightarrow> loop_state \<Rightarrow> loop_state" where
  "file_error env sink file e st =
     st\<lparr>ls_jm := logMethod (e_now env) sink
                    (''Error processing file '' @ file @ '': '' @ e) ''error'' (ls_jm st)\<rparr>"

definition mk_document :: "string \<Rightarrow> string \<Rightarrow> string \<Rightarrow> int \<Rightarrow> string \<Rightarrow> nat \<Rightarrow> nat \<Rightarrow> chunk
                           \<Rightarrow> real list \<Rightarrow> new_document" where
  "mk_document projectId file content fileModTime contentHash totalChunks i chunk embedding =
     \<lparr>nd_projectId = projectId, nd_filePath = file, nd_chunkIndex = i, nd_totalChunks = totalChunks,
      nd_content = ch_content chunk, nd_embedding = embedding,
      nd_metadata = \<lparr>md_fileSize = length content, md_fileType = extname file,
                      md_lastModified = fileModTime, md_contentHash = contentHash,
                      md_startLine = ch_startLine chunk, md_endLine = ch_endLine chunk\<rparr>\<rparr>"

text \<open>
  The loop over the chunks of one file: each embedding is awaited and the
  document pushed at once, so that a rejected embedding leaves the documents
  of the earlier chunks in \<open>documents\<close>.
\<close>

fun embed_chunks :: "env \<Rightarrow> (nat \<Rightarrow> chunk \<Rightarrow> real list \<Rightarrow> new_document) \<Rightarrow> chunk list \<Rightarrow> nat
                     \<Rightarrow> new_document list \<Rightarrow> error option \<times> new_document list" where
  "embed_chunks env mk [] i documents = (None, documents)"
| "embed_chunks env mk (chunk # rest) i documents =
     (case e_getEmbedding env (ch_content chunk) of
        Inl e \<Rightarrow> (Some e, documents)
      | Inr embedding \<Rightarrow> embed_chunks env mk rest (i + 1) (documents @ [mk i chunk embedding]))"

definition startProgress :: "bool \<Rightarrow> rat" where
  "startProgress deltaOnly = (if deltaOnly then 20 else 15)"

definition endProgress :: rat where
  "endProgress = 85"

text \<open>
  \<open>startProgress + ((fileIndex / totalFiles) * (endProgress - startProgress))\<close>.
\<close>

definition file_progress :: "bool \<Rightarrow> nat \<Rightarrow> nat \<Rightarrow> rat" where
  "file_progress deltaOnly totalFiles fileIndex =
     startProgress deltaOnly
       + (of_nat fileIndex / of_nat totalFiles) * (endProgress - startProgress deltaOnly)"

text \<open>From \<open>chunkContent\<close> to the progress report, for a file that is not skipped.\<close>

definition index_file :: "env \<Rightarrow> string option \<Rightarrow> string \<Rightarrow> bool \<Rightarrow> nat \<Rightarrow> string \<Rightarrow> string \<Rightarrow> int
                          \<Rightarrow> string \<Rightarrow> loop_state \<Rightarrow> loop_state" where
  "index_file env sink projectId deltaOnly totalFiles file content fileModTime contentHash st =
     (let chunks = chunkContent content file
      in case embed_chunks env
                (mk_document projectId file content fileModTime contentHash (length chunks))
                chunks 0 (ls_documents st) of
           (Some e, documents) \<Rightarrow> file_error env sink file e (st\<lparr>ls_documents := documents\<rparr>)
         | (None, documents) \<Rightarrow>
             (let processed = ls_processed st + 1;
                  currentProgress = file_progress deltaOnly totalFiles (ls_fileIndex st);
                  msg = ''Processed '' @ show_nat processed @ ''/'' @ show_nat totalFiles @ '' files'';
                  jm1 = reportProgress (e_now env) sink currentProgress msg (ls_jm st);
                  jm2 = (if processed mod 10 = 0
                         then logMethod (e_now env) sink msg ''info'' jm1 else jm1)
              in st\<lparr>ls_documents := documents, ls_processed := processed, ls_jm := jm2\<rparr>))"

text \<open>
  The test that classifies a file as unchanged. \<open>existing\<close> is the value read
  from the snapshot; on a value that is not a record, \<open>existing.contentHash\<close> is
  \<open>undefined\<close> and the comparison with the hash fails.
\<close>

definition unchanged :: "file_info \<Rightarrow> string \<Rightarrow> nat \<Rightarrow> int \<Rightarrow> bool" where
  "unchanged existing contentHash contentLength fileModTime =
     (fi_contentHash existing = contentHash \<and> fi_fileSize existing = contentLength
      \<and> fi_lastModified existing \<ge> fileModTime)"

definition is_unchanged :: "js_value \<Rightarrow> string \<Rightarrow> nat \<Rightarrow> int \<Rightarrow> bool" where
  "is_unchanged existing contentHash contentLength fileModTime =
     (case existing of
        JsRecord r \<Rightarrow> unchanged r contentHash contentLength fileModTime
      | _ \<Rightarrow> False)"

text \<open>
  The body of \<open>for (const file of files)\<close>. \<open>existingFiles\<close> is the snapshot
  object (\<open>{}\<close> in full mode), read by \<open>existingFiles[file]\<close>.
\<close>

definition process_file :: "env \<Rightarrow> string option \<Rightarrow> string \<Rightarrow> string \<Rightarrow> bool
                            \<Rightarrow> js_object \<Rightarrow> nat \<Rightarrow> string
                            \<Rightarrow> loop_state \<Rightarrow> loop_state" where
  "process_file env sink dirPath projectId deltaOnly existingFiles totalFiles file st0 =
     (let fullPath = path_join dirPath file;
          st = st0\<lparr>ls_currentFiles := List.insert file (ls_currentFiles st0)\<rparr>
      in if \<not> isTextFile file then st
         else
           (let st1 = st\<lparr>ls_fileIndex := ls_fileIndex st + 1\<rparr>
            in case e_stat env fullPath of
                 Inl e \<Rightarrow> file_error env sink file e st1
               | Inr fileModTime \<Rightarrow>
                   (case e_readFile env fullPath of
                      Inl e \<Rightarrow> file_error env sink file e st1
                    | Inr content \<Rightarrow>
                        if length content > 1024 * 1024
                        then st1\<lparr>ls_jm := logMethod (e_now env) sink
                                             (''Skipping large file: '' @ file) ''warn'' (ls_jm st1)\<rparr>
                        else
                          (let contentHash = e_md5 env content;
                               existing = get_property existingFiles file
                           in if deltaOnly \<and> truthy existing
                              then
                                if is_unchanged existing contentHash (length content) fileModTime
                                then st1\<lparr>ls_skipped := ls_skipped st1 + 1\<rparr>
                                else
                                  (case e_removeFileChunks_error env projectId file of
                                     Some e \<Rightarrow> file_error env sink file e st1
                                   | None \<Rightarrow>
                                       index_file env sink projectId deltaOnly totalFiles file
                                         content fileModTime contentHash
                                         (st1\<lparr>ls_vs := snd (removeFileChunks projectId file (ls_vs st1)),
                                              ls_updated := ls_updated st1 + 1\<rparr>))
                              else
                                index_file env sink projectId deltaOnly totalFiles file
                                  content fileModTime contentHash
                                  (if deltaOnly then st1\<lparr>ls_added := ls_added st1 + 1\<rparr>
                                   else st1)))))"

definition process_files :: "env \<Rightarrow> string option \<Rightarrow> string \<Rightarrow> string \<Rightarrow> bool
                             \<Rightarrow> js_object \<Rightarrow> nat \<Rightarrow> string list
                             \<Rightarrow> loop_state \<Rightarrow> loop_state" where
  "process_files env sink dirPath projectId deltaOnly existingFiles totalFiles files st =
     foldl (\<lambda>s file. process_file env sink dirPath projectId deltaOnly existingFiles totalFiles file s)
       st files"

subsection \<open>Deleted files\<close>

text \<open>
  The loop over \<open>deletedFiles\<close>: a rejected \<open>removeFileChunks\<close> ends it with
  the error.
\<close>

fun remove_deleted :: "env \<Rightarrow> string \<Rightarrow> string list \<Rightarrow> vector_store \<Rightarrow> nat
                       \<Rightarrow> error option \<times> vector_store \<times> nat" where
  "remove_deleted env projectId [] vs deleted = (None, vs, deleted)"
| "remove_deleted env projectId (f # fs) vs deleted =
     (case e_removeFileChunks_error env projectId f of
        Some e \<Rightarrow> (Some e, vs, deleted)
      | None \<Rightarrow> remove_deleted env projectId fs (snd (removeFileChunks projectId f vs)) (deleted + 1))"

subsection \<open>indexDirectory\<close>

type_synonym index_outcome = "(error + index_result) \<times> job_manager \<times> vector_store"

text \<open>The outer \<open>catch\<close>: the error is logged and thrown again.\<close>

definition index_failed :: "env \<Rightarrow> string option \<Rightarrow> error \<Rightarrow> job_manager \<Rightarrow> vector_store
                            \<Rightarrow> index_outcome" where
  "index_failed env sink e jm vs =
     (Inl e, logMethod (e_now env) sink (''Error during indexing: '' @ e) ''error'' jm, vs)"

text \<open>Loading the snapshot of the prior run, in delta mode.\<close>

definition load_existing :: "env \<Rightarrow> string option \<Rightarrow> string \<Rightarrow> bool \<Rightarrow> job_manager \<Rightarrow> vector_store
                             \<Rightarrow> error + js_object \<times> job_manager" where
  "load_existing env sink projectId deltaOnly jm vs =
     (if deltaOnly
      then (case e_getExistingFiles_error env projectId of
              Some e \<Rightarrow> Inl e
            | None \<Rightarrow>
                (let existingFiles = getExistingFiles vs projectId;
                     jm1 = logMethod (e_now env) sink
                             (''Found '' @ show_nat (length (object_keys existingFiles))
                              @ '' existing files in index'')
                             ''info'' jm;
                     jm2 = reportProgress (e_now env) sink 15 ''Loaded existing file metadata'' jm1
                 in Inr (existingFiles, jm2)))
      else Inr (empty_object, jm))"

text \<open>Handling deleted files, in delta mode.\<close>

definition delete_phase :: "env \<Rightarrow> string option \<Rightarrow> string \<Rightarrow> bool \<Rightarrow> js_object
                            \<Rightarrow> loop_state \<Rightarrow> error \<times> loop_state + nat \<times> loop_state" where
  "delete_phase env sink projectId deltaOnly existingFiles st =
     (if deltaOnly
      then (let jm1 = reportProgress (e_now env) sink 87 ''Checking for deleted files...'' (ls_jm st);
                deletedFiles = filter (\<lambda>f. f \<notin> set (ls_currentFiles st)) (object_keys existingFiles)
            in case remove_deleted env projectId deletedFiles (ls_vs st) 0 of
                 (Some e, vs1, deleted) \<Rightarrow> Inl (e, st\<lparr>ls_jm := jm1, ls_vs := vs1\<rparr>)
               | (None, vs1, deleted) \<Rightarrow>
                   (let jm2 = (if deleted > 0
                               then logMethod (e_now env) sink
                                      (''Removed '' @ show_nat deleted @ '' deleted files from index'')
                                      ''info'' jm1
                               else jm1)
                    in Inr (deleted, st\<lparr>ls_jm := jm2, ls_vs := vs1\<rparr>)))
      else Inr (0, st))"

text \<open>The bulk insert, the project metadata and the result object.\<close>

definition save_phase :: "env \<Rightarrow> string option \<Rightarrow> string \<Rightarrow> string \<Rightarrow> string list \<Rightarrow> bool \<Rightarrow> nat
                          \<Rightarrow> nat \<Rightarrow> loop_state \<Rightarrow> index_outcome" where
  "save_phase env sink originalPath projectId excludePatterns deltaOnly totalFiles deleted st =
     (let now = e_now env;
          documents = ls_documents st;
          inserted =
            (if length documents > 0
             then (let jm1 = reportProgress now sink 90 ''Saving documents to database...'' (ls_jm st)
                   in case e_addDocuments_error env of
                        Some e \<Rightarrow> Inl (e, jm1)
                      | None \<Rightarrow>
                          Inr (logMethod now sink
                                 (''Successfully indexed '' @ show_nat (length documents)
                                  @ '' document chunks for project '' @ projectId) ''success'' jm1,
                               addDocuments now documents (ls_vs st)))
             else Inr (ls_jm st, ls_vs st))
      in case inserted of
           Inl (e, jm1) \<Rightarrow> index_failed env sink e jm1 (ls_vs st)
         | Inr (jm1, vs1) \<Rightarrow>
             (let jm2 = reportProgress now sink 95 ''Saving project metadata...'' jm1
              in case e_saveProjectMetadata_error env of
                   Some e \<Rightarrow> index_failed env sink e jm2 vs1
                 | None \<Rightarrow>
                     (let vs2 = saveProjectMetadata now projectId originalPath excludePatterns vs1;
                          jm3 = reportProgress now sink 100 ''Indexing completed successfully'' jm2;
                          result = \<lparr>res_success = True, res_filesProcessed = ls_processed st,
                                    res_chunksIndexed = length documents, res_projectId = projectId,
                                    res_filesTotal = totalFiles,
                                    res_deltaStats =
                                      (if deltaOnly
                                       then Some \<lparr>ds_skipped = ls_skipped st, ds_updated = ls_updated st,
                                                  ds_added = ls_added st, ds_deleted = deleted,
                                                  ds_total = totalFiles\<rparr>
                                       else None)\<rparr>;
                          jm4 = (if deltaOnly
                                 then logMethod now sink
                                        (''Delta stats: '' @ show_nat (ls_skipped st) @ '' skipped, ''
                                         @ show_nat (ls_updated st) @ '' updated, ''
                                         @ show_nat (ls_added st) @ '' added, ''
                                         @ show_nat deleted @ '' deleted'') ''success'' jm3
                                 else jm3)
                      in (Inr result, jm4, vs2))))"

definition init_loop_state :: "job_manager \<Rightarrow> vector_store \<Rightarrow> loop_state" where
  "init_loop_state jm vs =
     \<lparr>ls_jm = jm, ls_vs = vs, ls_documents = [], ls_processed = 0, ls_skipped = 0,
      ls_updated = 0, ls_added = 0, ls_currentFiles = [], ls_fileIndex = 0\<rparr>"

text \<open>
  \<open>indexDirectory(dirPath, projectId, excludePatterns, deltaOnly, jobId)\<close> of an
  indexer whose \<open>jobManager\<close> is set or \<open>null\<close>. The result is what the promise
  settles to (\<open>Inl\<close> the thrown error), with the job registry and the store
  as the run leaves them.
\<close>

definition indexDirectory :: "env \<Rightarrow> bool \<Rightarrow> string \<Rightarrow> string \<Rightarrow> string list \<Rightarrow> bool \<Rightarrow> string option
                              \<Rightarrow> job_manager \<Rightarrow> vector_store \<Rightarrow> index_outcome" where
  "indexDirectory env has_jobManager dirPath projectId excludePatterns deltaOnly jobId jm vs =
     (let now = e_now env;
          sink = job_sink has_jobManager jobId;
          allExcludes = defaultExcludes @ excludePatterns;
          jm1 = logMethod now sink
                  (''Starting '' @ (if deltaOnly then ''delta '' else []) @ ''indexing for project: ''
                   @ projectId) ''info'' jm;
          jm2 = logMethod now sink (''Directory: '' @ dirPath) ''info'' jm1;
          jm3 = logMethod now sink (''Excluding: '' @ join_with '', '' allExcludes) ''info'' jm2;
          jm4 = reportProgress now sink 5 ''Scanning directory...'' jm3
      in case e_glob env dirPath allExcludes of
           Inl e \<Rightarrow> index_failed env sink e jm4 vs
         | Inr files \<Rightarrow>
             (let textFiles = filter isTextFile files;
                  jm5 = logMethod now sink
                          (''Found '' @ show_nat (length files) @ '' files, ''
                           @ show_nat (length textFiles) @ '' text files to ''
                           @ (if deltaOnly then ''check for changes'' else ''index'')) ''info'' jm4;
                  jm6 = reportProgress now sink 10
                          (''Found '' @ show_nat (length textFiles) @ '' files to process'') jm5
              in case load_existing env sink projectId deltaOnly jm6 vs of
                   Inl e \<Rightarrow> index_failed env sink e jm6 vs
                 | Inr (existingFiles, jm7) \<Rightarrow>
                     (let totalFiles = length textFiles;
                          st = process_files env sink dirPath projectId deltaOnly existingFiles
                                 totalFiles files (init_loop_state jm7 vs)
                      in case delete_phase env sink projectId deltaOnly existingFiles st of
                           Inl (e, st1) \<Rightarrow> index_failed env sink e (ls_jm st1) (ls_vs st1)
                         | Inr (deleted, st1) \<Rightarrow>
                             save_phase env sink dirPath projectId excludePatterns deltaOnly
                               totalFiles deleted st1)))"

section \<open>runIndexJob\<close>

definition completed_updates :: "index_result \<Rightarrow> job_updates" where
  "completed_updates result =
     \<lparr>u_status = Some Completed, u_result = Some result, u_error = None, u_progress = Some 100,
      u_stats = Some \<lparr>st_filesTotal = (if res_filesTotal result \<noteq> 0 then res_filesTotal result
                                        else res_filesProcessed result),
                      st_filesProcessed = res_filesProcessed result,
                      st_chunksIndexed = res_chunksIndexed result,
                      st_deltaStats = res_deltaStats result\<rparr>\<rparr>"

definition failed_updates :: "error \<Rightarrow> job_updates" where
  "failed_updates e =
     \<lparr>u_status = Some Failed, u_result = None, u_error = Some e, u_progress = Some 0,
      u_stats = None\<rparr>"

text \<open>
  \<open>runIndexJob(jobId, fileIndexer, directoryPath, projectId, excludePatterns,
  deltaOnly)\<close>; \<open>has_jobManager\<close> tells whether the indexer was constructed
  with this job manager. \<open>mark_running\<close> is the first statement of the
  \<open>try\<close> block, \<open>finish_job\<close> what follows the awaited call: the rest of
  the \<open>try\<close> block when it returned, the \<open>catch\<close> block when it threw.
\<close>

definition mark_running :: "int \<Rightarrow> string \<Rightarrow> job_manager \<Rightarrow> job_manager" where
  "mark_running now jobId jm = snd (updateJob now jobId (no_updates\<lparr>u_status := Some Running\<rparr>) jm)"

definition finish_job :: "int \<Rightarrow> string \<Rightarrow> index_outcome \<Rightarrow> index_outcome" where
  "finish_job now jobId outcome =
     (case outcome of
        (Inr result, jm2, vs2) \<Rightarrow>
          (let jm3 = snd (updateJob now jobId (completed_updates result) jm2);
               jm4 = addJobLog now jobId ''Indexing completed successfully'' ''success'' jm3;
               jm5 = addJobLog now jobId
                       (''Files processed: '' @ show_nat (res_filesProcessed result)
                        @ '', Chunks indexed: '' @ show_nat (res_chunksIndexed result))
                       ''success'' jm4;
               jm6 = (case res_deltaStats result of
                        None \<Rightarrow> jm5
                      | Some d \<Rightarrow>
                          addJobLog now jobId
                            (''Delta stats: '' @ show_nat (ds_skipped d) @ '' skipped, ''
                             @ show_nat (ds_updated d) @ '' updated, ''
                             @ show_nat (ds_added d) @ '' added, ''
                             @ show_nat (ds_deleted d) @ '' deleted'') ''success'' jm5)
           in (Inr result, jm6, vs2))
      | (Inl e, jm2, vs2) \<Rightarrow>
          (let jm3 = snd (updateJob now jobId (failed_updates e) jm2);
               jm4 = addJobLog now jobId (''Indexing failed: '' @ e) ''error'' jm3
           in (Inl e, jm4, vs2)))"

definition runIndexJob :: "env \<Rightarrow> bool \<Rightarrow> string \<Rightarrow> string \<Rightarrow> string \<Rightarrow> string list \<Rightarrow> bool
                           \<Rightarrow> job_manager \<Rightarrow> vector_store \<Rightarrow> index_outcome" where
  "runIndexJob env has_jobManager jobId directoryPath projectId excludePatterns deltaOnly jm vs =
     (case map_of (jm_jobs jm) jobId of
        None \<Rightarrow> (Inl ''Job not found'', jm, vs)
      | Some job \<Rightarrow>
          finish_job (e_now env) jobId
            (indexDirectory env has_jobManager directoryPath projectId excludePatterns
               deltaOnly (Some jobId) (mark_running (e_now env) jobId jm) vs))"

section \<open>Notions used to state the properties\<close>

text \<open>The last \<open>n\<close> elements of a list.\<close>

definition last_n :: "nat \<Rightarrow> 'a list \<Rightarrow> 'a list" where
  "last_n n xs = drop (length xs - n) xs"

text \<open>
  A sequence of \<open>addJobLog\<close> calls, each with its clock reading, job id,
  message and level, and the entries that the calls for one job create.
\<close>

fun run_addJobLog :: "(int \<times> string \<times> string \<times> string) list \<Rightarrow> job_manager \<Rightarrow> job_manager" where
  "run_addJobLog [] jm = jm"
| "run_addJobLog ((now, jobId, message, level) # calls) jm =
     run_addJobLog calls (addJobLog now jobId message level jm)"

definition entries_for :: "string \<Rightarrow> string \<Rightarrow> (int \<times> string \<times> string \<times> string) list
                           \<Rightarrow> log_entry list" where
  "entries_for jobId projectId calls =
     map (\<lambda>(now, j, message, level).
            \<lparr>log_timestamp = now, log_level = level, log_message = message,
             log_jobId = jobId, log_projectId = projectId\<rparr>)
         (filter (\<lambda>(now, j, message, level). j = jobId) calls)"





text \<open>
  What the indexer leaves alone in the registry: of every job the status, the
  times, the result and the error.
\<close>

definition job_core :: "job \<Rightarrow> status \<times> int \<times> int option \<times> index_result option \<times> error option" where
  "job_core job =
     (job_status job, job_startTime job, job_endTime job, job_result job, job_error job)"

definition same_core :: "job_manager \<Rightarrow> job_manager \<Rightarrow> bool" where
  "same_core jm jm' = (\<forall>jobId. map_option job_core (getJob jm' jobId) = map_option job_core (getJob jm jobId))"

text \<open>
  The progress values assigned so far to the job \<open>jobId\<close> are non-decreasing
  and at most \<open>b\<close>.
\<close>

definition progress_upto :: "string \<Rightarrow> rat \<Rightarrow> job_manager \<Rightarrow> bool" where
  "progress_upto jobId b jm =
     (case map_option job_history (getJob jm jobId) of
        None \<Rightarrow> True
      | Some h \<Rightarrow> sorted h \<and> list_all (\<lambda>x. x \<le> b) h)"

definition jm_inv :: "string \<Rightarrow> job_manager \<Rightarrow> rat \<Rightarrow> job_manager \<Rightarrow> bool" where
  "jm_inv jobId jm0 b jm = (same_core jm0 jm \<and> progress_upto jobId b jm)"

text \<open>The stored chunks of one file of a project.\<close>

definition chunks_of :: "vector_store \<Rightarrow> string \<Rightarrow> string \<Rightarrow> document list" where
  "chunks_of vs projectId filePath =
     filter (\<lambda>d. doc_projectId d = projectId \<and> doc_filePath d = filePath) (vs_documents vs)"

text \<open>
  The loop state once a text file has been entered in \<open>currentFiles\<close> and
  \<open>fileIndex\<close> has been incremented.
\<close>

definition entered :: "string \<Rightarrow> loop_state \<Rightarrow> loop_state" where
  "entered file st =
     st\<lparr>ls_currentFiles := List.insert file (ls_currentFiles st),
        ls_fileIndex := Suc (ls_fileIndex st)\<rparr>"

text \<open>The line after the last chunk, \<open>s\<close> when there is no chunk.\<close>

definition next_line :: "nat \<Rightarrow> chunk list \<Rightarrow> nat" where
  "next_line s cs = (if cs = [] then s else ch_endLine (last cs) + 1)"

text \<open>Lines joined, each followed by a line feed, as \<open>currentChunk\<close> accumulates them.\<close>

definition with_nl :: "string list \<Rightarrow> string" where
  "with_nl ls = concat (map (\<lambda>l. l @ [NL]) ls)"

text \<open>A job object and a registry for concrete instances of the theorems.\<close>

definition example_job :: job where
  "example_job =
     \<lparr>job_id = ''job_1_0'', job_type = ''index'', job_projectId = ''p'',
      job_status = Pending, job_progress = 0, job_startTime = 0,
      job_endTime = None, job_duration = None, job_result = None,
      job_error = None,
      job_params = \<lparr>p_directoryPath = ''/src'', p_excludePatterns = []\<rparr>, job_logs = [],
      job_stats = \<lparr>st_filesTotal = 0, st_filesProcessed = 0,
                   st_chunksIndexed = 0, st_deltaStats = None\<rparr>,
      job_history = [0]\<rparr>"

definition example_entry :: log_entry where
  "example_entry =
     \<lparr>log_timestamp = 3, log_level = ''info'', log_message = ''Scanning directory...'',
      log_jobId = ''job_1_0'', log_projectId = ''p''\<rparr>"

definition example_jm :: job_manager where
  "example_jm = \<lparr>jm_jobs = [(''job_1_0'', example_job)], jm_jobId = 1\<rparr>"

text \<open>
  An environment for concrete instances: the directory listing is given,
  every file holds \<open>content\<close> and was modified at time 100, the digest of a
  content is the content itself, every embedding is \<open>[1]\<close>, no call on the
  store rejects and the clock reads 50.
\<close>

definition example_env :: "(error + string list) \<Rightarrow> string \<Rightarrow> env" where
  "example_env listing content =
     \<lparr>e_glob = (\<lambda>dirPath excludes. listing),
      e_stat = (\<lambda>fullPath. Inr 100),
      e_readFile = (\<lambda>fullPath. Inr content),
      e_md5 = (\<lambda>s. s),
      e_getEmbedding = (\<lambda>text. Inr [1]),
      e_getExistingFiles_error = (\<lambda>projectId. None),
      e_removeFileChunks_error = (\<lambda>projectId filePath. None),
      e_addDocuments_error = None,
      e_saveProjectMetadata_error = None,
      e_now = 50\<rparr>"

text \<open>Two stored documents for concrete instances of the theorems.\<close>

definition example_doc :: "nat \<Rightarrow> string \<Rightarrow> embedding \<Rightarrow> document" where
  "example_doc n file emb =
     \<lparr>doc_id = n, doc_projectId = ''p'', doc_filePath = file, doc_chunkIndex = 0,
      doc_totalChunks = 1, doc_content = ''File: '' @ file, doc_embedding = emb,
      doc_metadata = \<lparr>md_fileSize = 1, md_fileType = ''.js'', md_lastModified = 100,
                      md_contentHash = ''h'', md_startLine = 1, md_endLine = 1\<rparr>,
      doc_createdAt = 6\<rparr>"

definition example_store :: vector_store where
  "example_store =
     \<lparr>vs_documents = [example_doc 0 ''a.js'' (Vector [1, 0]), example_doc 1 ''b.js'' NullValue],
      vs_next_id = 2, vs_projects = []\<rparr>"

text \<open>
  The example store after a file \<open>__proto__\<close> of the project root has been
  indexed as well.
\<close>

definition proto_store :: vector_store where
  "proto_store =
     \<lparr>vs_documents =
        [example_doc 0 ''a.js'' (Vector [1, 0]), example_doc 1 ''b.js'' NullValue,
         \<lparr>doc_id = 2, doc_projectId = ''p'', doc_filePath = ''__proto__'', doc_chunkIndex = 0,
          doc_totalChunks = 1, doc_content = ''File: __proto__'', doc_embedding = Vector [1],
          doc_metadata = \<lparr>md_fileSize = 1, md_fileType = [], md_lastModified = 100,
                          md_contentHash = ''h'', md_startLine = 1, md_endLine = 1\<rparr>,
          doc_createdAt = 7\<rparr>],
      vs_next_id = 3, vs_projects = []\<rparr>"


text \<open>
  Two file contents for concrete instances: two short lines; and a line of
  2000 characters followed by a line that holds one space.
\<close>

definition two_line_file :: string where
  "two_line_file = ''ab'' @ [NL] @ ''cd''"

definition long_line_file :: string where
  "long_line_file = replicate 2000 (CHR ''x'') @ [NL, CHR '' '']"

definition two_chunk_file :: string where
  "two_chunk_file = replicate 2000 (CHR ''x'') @ [NL] @ ''y''"

definition blank_file :: string where
  "blank_file = '' '' @ [NL] @ [CHR 0x09]"

text \<open>
  The environment of a directory that holds the file \<open>a.txt\<close>, two chunks
  long, where the embedding provider rejects every text that contains the
  letter \<open>y\<close>: the second chunk, not the first.
\<close>

definition failing_embedding_env :: env where
  "failing_embedding_env =
     (example_env (Inr [''a.txt'']) two_chunk_file)
       \<lparr>e_getEmbedding := (\<lambda>text. if CHR ''y'' \<in> set text then Inl ''embedding failed''
                                   else Inr [1])\<rparr>"

section \<open>Properties of the job manager\<close>

subsection \<open>The log buffer\<close>

lemma last_n_append: "last_n n (last_n n xs @ ys) = last_n n (xs @ ys)"
proof (cases "length xs \<le> n")
  case True
  then show ?thesis by (simp add: last_n_def)
next
  case False
  then show ?thesis by (simp add: last_n_def add.commute)
qed

lemma last_n_short: "length xs \<le> n \<Longrightarrow> last_n n xs = xs"
  by (simp add: last_n_def)

lemma length_last_n: "length (last_n n xs) \<le> n"
  by (simp add: last_n_def)

lemma addJobLog_same:
  assumes "map_of (jm_jobs jm) jid = Some job"
  shows "map_of (jm_jobs (addJobLog now jid msg lvl jm)) jid =
         Some (job\<lparr>job_logs := last_n 50 (job_logs job @
            [\<lparr>log_timestamp = now, log_level = lvl, log_message = msg,
              log_jobId = jid, log_projectId = job_projectId job\<rparr>])\<rparr>)"
  using assms by (simp add: addJobLog_def Let_def update_conv' last_n_def)

lemma addJobLog_other:
  assumes "jid' \<noteq> jid"
  shows "map_of (jm_jobs (addJobLog now jid' msg lvl jm)) jid = map_of (jm_jobs jm) jid"
  using assms by (simp add: addJobLog_def Let_def update_conv' split: option.splits)

lemma run_addJobLog_logs:
  assumes "map_of (jm_jobs jm) jid = Some job" "length (job_logs job) \<le> 50"
  shows "\<exists>job'. map_of (jm_jobs (run_addJobLog calls jm)) jid = Some job'
           \<and> job_projectId job' = job_projectId job
           \<and> job_logs job' = last_n 50 (job_logs job @ entries_for jid (job_projectId job) calls)"
  using assms
proof (induction calls arbitrary: jm job)
  case Nil
  then show ?case by (simp add: entries_for_def last_n_short)
next
  case (Cons c calls)
  obtain now j msg lvl where c: "c = (now, j, msg, lvl)" by (cases c) auto
  show ?case
  proof (cases "j = jid")
    case False
    then have "map_of (jm_jobs (addJobLog now j msg lvl jm)) jid = Some job"
      using Cons.prems by (simp add: addJobLog_other)
    from Cons.IH[OF this Cons.prems(2)] show ?thesis using False by (simp add: c entries_for_def)
  next
    case True
    let ?e = "\<lparr>log_timestamp = now, log_level = lvl, log_message = msg,
              log_jobId = jid, log_projectId = job_projectId job\<rparr>"
    let ?job1 = "job\<lparr>job_logs := last_n 50 (job_logs job @ [?e])\<rparr>"
    have 1: "map_of (jm_jobs (addJobLog now j msg lvl jm)) jid = Some ?job1"
      using Cons.prems True by (simp add: addJobLog_same)
    have 2: "length (job_logs ?job1) \<le> 50" by (simp add: length_last_n)
    from Cons.IH[OF 1 2] obtain job' where
      j': "map_of (jm_jobs (run_addJobLog calls (addJobLog now j msg lvl jm))) jid = Some job'"
        "job_projectId job' = job_projectId job"
        "job_logs job' = last_n 50 (job_logs ?job1 @ entries_for jid (job_projectId ?job1) calls)"
      by auto
    have "job_logs job' = last_n 50 ((job_logs job @ [?e]) @ entries_for jid (job_projectId job) calls)"
      using j'(3) by (simp add: last_n_append)
    then show ?thesis using j'(1,2) True
      by (simp add: c entries_for_def)
  qed
qed

text \<open>
  Claim C9. For a job whose log buffer holds at most 50 entries (a created job
  has none), after any sequence of \<open>addJobLog\<close> calls the buffer holds at most
  50 entries, and they are the last 50 of the entries it had followed by the
  entries logged for this job: the oldest are evicted.
\<close>

theorem addJobLog_keeps_last_50:
  assumes "getJob jm jobId = Some job" and "length (job_logs job) \<le> 50"
  shows "\<exists>job'. getJob (run_addJobLog calls jm) jobId = Some job'
           \<and> length (job_logs job') \<le> 50
           \<and> job_logs job' = last_n 50 (job_logs job @ entries_for jobId (job_projectId job) calls)"
proof -
  from assms obtain job' where
    "map_of (jm_jobs (run_addJobLog calls jm)) jobId = Some job'"
    "job_logs job' = last_n 50 (job_logs job @ entries_for jobId (job_projectId job) calls)"
    using run_addJobLog_logs[of jm jobId job calls] by (auto simp: getJob_def)
  then show ?thesis by (auto simp: getJob_def length_last_n)
qed

text \<open>
  An instance: a job whose buffer is full with 50 entries \<open>e\<close> receives one
  more entry; the first entry is evicted and the new one is the last.
\<close>

theorem addJobLog_keeps_last_50_witness:
  "\<exists>job'. getJob (run_addJobLog [(7, ''job_1_0'', ''done'', ''info'')]
                   \<lparr>jm_jobs = [(''job_1_0'', example_job\<lparr>job_logs := replicate 50 example_entry\<rparr>)],
                    jm_jobId = 1\<rparr>) ''job_1_0'' = Some job'
     \<and> length (job_logs job') \<le> 50
     \<and> job_logs job' = replicate 49 example_entry @ [\<lparr>log_timestamp = 7, log_level = ''info'',
          log_message = ''done'', log_jobId = ''job_1_0'', log_projectId = ''p''\<rparr>]"
proof -
  let ?job = "example_job\<lparr>job_logs := replicate 50 example_entry\<rparr>"
  let ?jm = "\<lparr>jm_jobs = [(''job_1_0'', ?job)], jm_jobId = 1\<rparr>"
  have g: "getJob ?jm ''job_1_0'' = Some ?job" by (simp add: getJob_def)
  have l: "length (job_logs ?job) \<le> 50" by simp
  have "drop (Suc 0) (replicate 50 example_entry) = replicate 49 example_entry" by simp
  then show ?thesis
    using addJobLog_keeps_last_50[OF g l, of "[(7, ''job_1_0'', ''done'', ''info'')]"]
    by (simp add: entries_for_def last_n_def example_job_def)
qed

subsection \<open>Garbage collection of old jobs\<close>

lemma map_of_filter_distinct:
  assumes "distinct (map fst xs)"
  shows "map_of (filter (\<lambda>(k, v). P v) xs) k =
         (case map_of xs k of None \<Rightarrow> None | Some v \<Rightarrow> if P v then Some v else None)"
  using assms
proof (induction xs)
  case Nil
  then show ?case by simp
next
  case (Cons x xs)
  obtain k' v' where x: "x = (k', v')" by (cases x)
  from Cons.prems have nk: "k' \<notin> fst ` set xs" by (simp add: x)
  then have "map_of xs k' = None" by (simp add: map_of_eq_None_iff)
  with Cons show ?case by (auto simp: x split: option.splits)
qed

lemma cleanup_getJob:
  assumes "distinct (map fst (jm_jobs jm))"
  shows "getJob (snd (cleanupOldJobs now maxAge jm)) jid =
           (case getJob jm jid of
              None \<Rightarrow> None
            | Some job \<Rightarrow>
                (case job_endTime job of
                   None \<Rightarrow> Some job
                 | Some e \<Rightarrow> if e < now - maxAge then None else Some job))"
  using map_of_filter_distinct[OF assms, of "\<lambda>job. \<not> is_old (now - maxAge) job" jid]
  by (auto simp: cleanupOldJobs_def getJob_def Let_def is_old_def split: option.splits)


section \<open>Properties of chunkContent\<close>

lemma contiguous_snoc:
  "contiguous_from s (cs @ [c]) \<longleftrightarrow>
     contiguous_from s cs \<and> ch_startLine c = next_line s cs \<and> ch_startLine c \<le> ch_endLine c"
  by (induction cs arbitrary: s) (auto simp: next_line_def)

text \<open>
  The invariant of the loop: the chunks closed so far are contiguous from line
  1 and end just before \<open>startLine\<close>; \<open>currentChunk\<close> holds the lines from
  \<open>startLine\<close> to the line before \<open>currentLine\<close>. \<open>pre\<close> are the lines
  already consumed.
\<close>

lemma chunk_loop_inv:
  assumes "chunk_loop f ls chunks cur start line = (chunks', cur', start', line')"
    and "contiguous_from 1 chunks" and "next_line 1 chunks = start"
    and "1 \<le> start" and "start \<le> line" and "length pre = line - 1"
    and "cur = with_nl (drop (start - 1) pre)"
  shows "contiguous_from 1 chunks' \<and> next_line 1 chunks' = start' \<and> 1 \<le> start' \<and> start' \<le> line'
         \<and> line' = line + length ls \<and> cur' = with_nl (drop (start' - 1) (pre @ ls))"
  using assms
proof (induction ls arbitrary: chunks cur start line pre)
  case Nil
  then show ?case by auto
next
  case (Cons l ls)
  show ?case
  proof (cases "length cur + length l > maxChunkSize \<and> length cur > 0")
    case True
    then have curne: "cur \<noteq> []" by auto
    with Cons.prems(7) have "drop (start - 1) pre \<noteq> []" by (auto simp: with_nl_def)
    then have lt: "start < line" using Cons.prems(6) by simp
    let ?c = "mk_chunk f cur start line"
    from True Cons.prems(1) have
      run: "chunk_loop f ls (chunks @ [?c]) (l @ [NL]) line (line + 1) = (chunks', cur', start', line')"
      by simp
    have c1: "contiguous_from 1 (chunks @ [?c])"
      using Cons.prems(2,3) lt by (simp add: contiguous_snoc mk_chunk_def)
    have c2: "next_line 1 (chunks @ [?c]) = line"
      using lt by (simp add: next_line_def mk_chunk_def)
    have c6: "length (pre @ [l]) = (line + 1) - 1" using Cons.prems(6) lt by simp
    have c7: "l @ [NL] = with_nl (drop (line - 1) (pre @ [l]))"
      using Cons.prems(6) by (simp add: with_nl_def)
    from Cons.IH[OF run c1 c2 _ _ c6 c7] lt show ?thesis by simp
  next
    case False
    with Cons.prems(1) have
      run: "chunk_loop f ls chunks (cur @ l @ [NL]) start (line + 1) = (chunks', cur', start', line')"
      by auto
    have c6: "length (pre @ [l]) = (line + 1) - 1" using Cons.prems(4,5,6) by simp
    have c7: "cur @ l @ [NL] = with_nl (drop (start - 1) (pre @ [l]))"
      using Cons.prems(4,5,6,7) by (simp add: with_nl_def)
    from Cons.IH[OF run Cons.prems(2,3,4) _ c6 c7] Cons.prems(5) show ?thesis by simp
  qed
qed

lemma trim_Nil_iff: "trim s = [] \<longleftrightarrow> (\<forall>c \<in> set s. is_ws c)"
proof
  assume "trim s = []"
  then have a: "\<forall>c \<in> set (dropWhile is_ws s). is_ws c"
    by (simp add: trim_def dropWhile_eq_Nil_conv)
  show "\<forall>c \<in> set s. is_ws c"
  proof (cases "dropWhile is_ws s")
    case Nil
    then show ?thesis by (simp add: dropWhile_eq_Nil_conv)
  next
    case (Cons x xs)
    then have "\<not> is_ws x" using hd_dropWhile[of is_ws s] by auto
    with a Cons show ?thesis by simp
  qed
next
  assume "\<forall>c \<in> set s. is_ws c"
  then show "trim s = []" by (auto simp: trim_def dropWhile_eq_Nil_conv dest: set_dropWhileD)
qed

lemma split_nl_nonempty: "split_nl s \<noteq> []"
  by (induction s) (auto simp: Let_def)

lemma totalLines_pos: "1 \<le> totalLines content"
  using split_nl_nonempty[of content] by (cases "split_nl content") (auto simp: totalLines_def)

lemma nth_in_drop: "i < length xs \<Longrightarrow> j \<le> i \<Longrightarrow> xs ! i \<in> set (drop j xs)"
proof -
  assume a: "i < length xs" "j \<le> i"
  then have "drop j xs ! (i - j) = xs ! i" by simp
  moreover have "i - j < length (drop j xs)" using a by simp
  ultimately show ?thesis by (metis nth_mem)
qed

lemma accumulate_props:
  fixes content f
  defines "cs \<equiv> accumulate_chunks content f"
    and "n \<equiv> totalLines content"
  shows "contiguous_from 1 cs \<and> next_line 1 cs \<le> n + 1
         \<and> (\<forall>k. next_line 1 cs \<le> k \<and> k \<le> n \<longrightarrow> (\<forall>c \<in> set (line_at content k). is_ws c))"
proof -
  obtain chunks cur start line where
    run: "chunk_loop f (split_nl content) [] [] 1 1 = (chunks, cur, start, line)"
    by (metis prod_cases4)
  have inv: "contiguous_from 1 chunks \<and> next_line 1 chunks = start \<and> 1 \<le> start \<and> start \<le> line
         \<and> line = 1 + length (split_nl content) \<and> cur = with_nl (drop (start - 1) ([] @ split_nl content))"
    by (rule chunk_loop_inv[OF run]) (simp_all add: next_line_def with_nl_def)
  show ?thesis
  proof (cases "trim cur \<noteq> []")
    case True
    then have "cur \<noteq> []" by (auto simp: trim_def)
    with inv have "start - 1 < length (split_nl content)" by (auto simp: with_nl_def)
    with inv have lt: "start < line" by simp
    have cs: "cs = chunks @ [mk_chunk f cur start line]"
      using run True by (simp add: cs_def accumulate_chunks_def)
    have "contiguous_from 1 cs" using inv lt by (simp add: cs contiguous_snoc mk_chunk_def)
    moreover have "next_line 1 cs = n + 1"
      using inv lt by (simp add: cs next_line_def mk_chunk_def n_def totalLines_def)
    ultimately show ?thesis by auto
  next
    case False
    then have ws: "\<forall>c \<in> set cur. is_ws c" by (simp add: trim_Nil_iff)
    have cs: "cs = chunks" using run False by (simp add: cs_def accumulate_chunks_def)
    have "is_ws c" if k: "start \<le> k" "k \<le> n" and c: "c \<in> set (line_at content k)" for k c
    proof -
      have "k - 1 < length (split_nl content)" using k inv by (auto simp: n_def totalLines_def)
      moreover have "start - 1 \<le> k - 1" using k by simp
      ultimately have "split_nl content ! (k - 1) \<in> set (drop (start - 1) (split_nl content))"
        by (rule nth_in_drop)
      then have "c \<in> set cur" using inv c by (auto simp: with_nl_def line_at_def)
      with ws show ?thesis by simp
    qed
    then show ?thesis using inv by (auto simp: cs n_def totalLines_def)
  qed
qed

lemma contiguous_sorted:
  "contiguous_from s cs \<Longrightarrow> sorted_wrt (\<lambda>a b. ch_endLine a < ch_startLine b) cs
     \<and> (\<forall>c \<in> set cs. s \<le> ch_startLine c \<and> ch_startLine c \<le> ch_endLine c)"
proof (induction cs arbitrary: s)
  case Nil
  then show ?case by simp
next
  case (Cons c cs)
  from Cons.prems have a: "ch_startLine c = s" "s \<le> ch_endLine c" "contiguous_from (ch_endLine c + 1) cs"
    by auto
  from Cons.IH[OF a(3)] a show ?case by fastforce
qed

lemma contiguous_cover:
  "contiguous_from s cs \<Longrightarrow> s \<le> k \<Longrightarrow> k < next_line s cs \<Longrightarrow>
     \<exists>c \<in> set cs. ch_startLine c \<le> k \<and> k \<le> ch_endLine c"
proof (induction cs arbitrary: s)
  case Nil
  then show ?case by (simp add: next_line_def)
next
  case (Cons c cs)
  from Cons.prems have a: "ch_startLine c = s" "s \<le> ch_endLine c" "contiguous_from (ch_endLine c + 1) cs"
    by auto
  show ?case
  proof (cases "k \<le> ch_endLine c")
    case True
    with a Cons.prems show ?thesis by auto
  next
    case False
    then have "cs \<noteq> []" using Cons.prems(3) by (auto simp: next_line_def split: if_splits)
    then have "next_line (ch_endLine c + 1) cs = next_line s (c # cs)" by (simp add: next_line_def)
    with Cons.IH[OF a(3)] False Cons.prems show ?thesis by auto
  qed
qed

lemma chunkContent_cases:
  "chunkContent content f = accumulate_chunks content f \<and> accumulate_chunks content f \<noteq> []
   \<or> accumulate_chunks content f = [] \<and> chunkContent content f =
       [\<lparr>ch_content = ''File: '' @ f @ [NL, NL] @ content, ch_startLine = 1,
         ch_endLine = totalLines content\<rparr>]"
  by (auto simp: chunkContent_def Let_def totalLines_def)

lemma split_nl_no_nl: "NL \<notin> set xs \<Longrightarrow> split_nl xs = [xs]"
  by (induction xs) (auto simp: Let_def)

lemma split_nl_append: "NL \<notin> set xs \<Longrightarrow> split_nl (xs @ NL # ys) = xs # split_nl ys"
  by (induction xs) (auto simp: Let_def)

lemma is_ws_NL: "is_ws NL" and is_ws_space: "is_ws (CHR '' '')"
  by (simp_all add: is_ws_def NL_def)

lemma long_line_lines: "split_nl long_line_file = [replicate 2000 (CHR ''x''), '' '']"
proof -
  have "split_nl (replicate 2000 (CHR ''x'') @ NL # '' '') = replicate 2000 (CHR ''x'') # split_nl '' ''"
    by (rule split_nl_append) (simp add: NL_def)
  then show ?thesis by (simp add: NL_def long_line_file_def)
qed

lemma long_line_chunks:
  "chunkContent long_line_file ''a.txt''
     = [mk_chunk ''a.txt'' (replicate 2000 (CHR ''x'') @ [NL]) 1 2]"
  by (simp add: chunkContent_def accumulate_chunks_def long_line_lines maxChunkSize_def trim_def
      is_ws_NL is_ws_space Let_def numeral_2_eq_2)

lemma two_lines: "split_nl two_line_file = [''ab'', ''cd'']"
  by (simp add: NL_def two_line_file_def)

lemma two_lines_chunks:
  "chunkContent two_line_file ''f'' = [mk_chunk ''f'' (''ab'' @ [NL] @ ''cd'' @ [NL]) 1 3]"
  by (simp add: chunkContent_def accumulate_chunks_def two_lines maxChunkSize_def trim_def
      is_ws_def NL_def Let_def numeral_3_eq_3)

text \<open>
  Claim C3, as the code has it. The chunks of a file are never empty, start at
  line 1, follow one another without gap or overlap in ascending order, and
  cover every line up to the end line of the last chunk, which is at most the
  number of lines. The lines after it, if any, hold only whitespace: the final
  accumulation is dropped when \<open>currentChunk.trim()\<close> is empty.
\<close>

theorem chunkContent_coverage:
  fixes content f
  defines "cs \<equiv> chunkContent content f"
    and "n \<equiv> totalLines content"
  shows "cs \<noteq> [] \<and> contiguous_from 1 cs
       \<and> sorted_wrt (\<lambda>a b. ch_endLine a < ch_startLine b) cs
       \<and> ch_endLine (last cs) \<le> n
       \<and> (\<forall>k. 1 \<le> k \<and> k \<le> ch_endLine (last cs) \<longrightarrow>
             (\<exists>c \<in> set cs. ch_startLine c \<le> k \<and> k \<le> ch_endLine c))
       \<and> (\<forall>k. ch_endLine (last cs) < k \<and> k \<le> n \<longrightarrow> (\<forall>c \<in> set (line_at content k). is_ws c))"
proof -
  have ne: "cs \<noteq> []" by (simp add: cs_def chunkContent_def Let_def)
  have main: "contiguous_from 1 cs \<and> next_line 1 cs \<le> n + 1
         \<and> (\<forall>k. next_line 1 cs \<le> k \<and> k \<le> n \<longrightarrow> (\<forall>c \<in> set (line_at content k). is_ws c))"
    using chunkContent_cases[of content f] accumulate_props[of content f] totalLines_pos[of content]
    by (auto simp: cs_def n_def next_line_def)
  have nl: "next_line 1 cs = ch_endLine (last cs) + 1" using ne by (simp add: next_line_def)
  have cov: "\<exists>c \<in> set cs. ch_startLine c \<le> k \<and> k \<le> ch_endLine c"
    if "1 \<le> k" "k \<le> ch_endLine (last cs)" for k
    using contiguous_cover[where s=1 and cs=cs and k=k] main that nl by simp
  have srt: "sorted_wrt (\<lambda>a b. ch_endLine a < ch_startLine b) cs"
    using contiguous_sorted[of 1 cs] main by simp
  from ne main nl cov srt show ?thesis by (auto simp: Suc_le_eq)
qed

text \<open>
  Two instances: a file of two short lines, whose single chunk covers line 2;
  and the file of a 2000-character line followed by a line with one space,
  where the chunks end at line 1 and line 2 holds only whitespace.
\<close>

theorem chunkContent_coverage_witness:
  "(1 \<le> (2::nat) \<and> 2 \<le> ch_endLine (last (chunkContent two_line_file ''f''))
      \<and> (\<exists>c \<in> set (chunkContent two_line_file ''f''). ch_startLine c \<le> 2 \<and> 2 \<le> ch_endLine c))
   \<and> (ch_endLine (last (chunkContent long_line_file ''a.txt'')) < 2
      \<and> 2 \<le> totalLines long_line_file
      \<and> list_all is_ws (line_at long_line_file 2))"
proof -
  have e1: "(1::nat) \<le> 2 \<and> 2 \<le> ch_endLine (last (chunkContent two_line_file ''f''))"
    by (simp add: two_lines_chunks mk_chunk_def)
  have e2: "ch_endLine (last (chunkContent long_line_file ''a.txt'')) < 2 \<and> 2 \<le> totalLines long_line_file"
    by (simp add: long_line_chunks mk_chunk_def totalLines_def long_line_lines)
  from chunkContent_coverage[of two_line_file "''f''"] e1
  have c1: "\<exists>c \<in> set (chunkContent two_line_file ''f''). ch_startLine c \<le> 2 \<and> 2 \<le> ch_endLine c"
    by blast
  from chunkContent_coverage[of long_line_file "''a.txt''"] e2
  have c2: "\<forall>c \<in> set (line_at long_line_file 2). is_ws c"
    by blast
  from c2 have c3: "list_all is_ws (line_at long_line_file 2)" by (simp add: list_all_iff)
  from e1 e2 c1 c3 show ?thesis by blast
qed

text \<open>
  Claim C3 as the specification states it fails: the file of a 2000-character
  line followed by a line with one space has two lines, and no chunk covers
  line 2.
\<close>

theorem chunkContent_coverage_counterexample:
  "totalLines long_line_file = 2 \<and>
   \<not> (\<exists>c \<in> set (chunkContent long_line_file ''a.txt''). ch_startLine c \<le> 2 \<and> 2 \<le> ch_endLine c)"
  by (simp add: long_line_chunks totalLines_def long_line_lines mk_chunk_def)

lemma with_nl_split_nl: "with_nl (split_nl content) = content @ [NL]"
proof (induction content)
  case Nil
  then show ?case by (simp add: with_nl_def)
next
  case (Cons c cs)
  show ?case
  proof (cases "c = NL")
    case True
    with Cons show ?thesis by (simp add: with_nl_def)
  next
    case False
    obtain l ls where r: "split_nl cs = l # ls"
      using split_nl_nonempty[of cs] by (cases "split_nl cs") auto
    with Cons False show ?thesis by (simp add: with_nl_def Let_def)
  qed
qed

lemma chunk_loop_no_close:
  assumes "chunk_loop f ls [] cur start line = (chunks', cur', start', line')"
    and "length cur + length (with_nl ls) \<le> maxChunkSize + 1"
  shows "chunks' = [] \<and> cur' = cur @ with_nl ls"
  using assms
proof (induction ls arbitrary: cur line)
  case Nil
  then show ?case by (simp add: with_nl_def)
next
  case (Cons l ls)
  from Cons.prems(2) have le: "length cur + length l \<le> maxChunkSize" by (simp add: with_nl_def)
  with Cons.prems(1) have
    run: "chunk_loop f ls [] (cur @ l @ [NL]) start (line + 1) = (chunks', cur', start', line')"
    by simp
  have "length (cur @ l @ [NL]) + length (with_nl ls) \<le> maxChunkSize + 1"
    using Cons.prems(2) by (simp add: with_nl_def)
  from Cons.IH[OF run this] show ?case by (simp add: with_nl_def)
qed

lemma whitespace_no_chunks:
  assumes "\<forall>c \<in> set content. is_ws c" and "length content \<le> maxChunkSize"
  shows "accumulate_chunks content f = []"
proof -
  obtain chunks cur start line where
    run: "chunk_loop f (split_nl content) [] [] 1 1 = (chunks, cur, start, line)"
    by (metis prod_cases4)
  have "chunks = [] \<and> cur = [] @ with_nl (split_nl content)"
    by (rule chunk_loop_no_close[OF run]) (simp add: with_nl_split_nl assms(2))
  then have "chunks = []" "cur = content @ [NL]" by (simp_all add: with_nl_split_nl)
  moreover have "trim (content @ [NL]) = []" using assms(1) by (simp add: trim_Nil_iff is_ws_NL)
  ultimately show ?thesis using run by (simp add: accumulate_chunks_def)
qed

text \<open>
  Claim C8. \<open>chunkContent\<close> never returns an empty array; when the line
  accumulation yields no chunk, it returns the single whole-file chunk from
  line 1 to the number of lines. The accumulation yields no chunk for a content
  of at most 2000 characters that are all whitespace, the empty content among
  them.
\<close>

theorem chunkContent_whole_file_fallback:
  "chunkContent content filename \<noteq> []
   \<and> (accumulate_chunks content filename = [] \<longrightarrow>
        chunkContent content filename =
          [\<lparr>ch_content = ''File: '' @ filename @ [NL, NL] @ content, ch_startLine = 1,
            ch_endLine = totalLines content\<rparr>])
   \<and> ((\<forall>c \<in> set content. is_ws c) \<and> length content \<le> maxChunkSize \<longrightarrow>
        accumulate_chunks content filename = [])"
  using whitespace_no_chunks[of content filename]
  by (auto simp: chunkContent_def Let_def totalLines_def)

text \<open>An instance: the content of a space, a line feed and a tab.\<close>

theorem chunkContent_whole_file_fallback_witness:
  "list_all is_ws blank_file
   \<and> length blank_file \<le> maxChunkSize
   \<and> accumulate_chunks blank_file ''README'' = []
   \<and> chunkContent blank_file ''README'' =
       [\<lparr>ch_content = ''File: README'' @ [NL, NL] @ blank_file, ch_startLine = 1, ch_endLine = 2\<rparr>]"
proof -
  have a: "\<forall>c \<in> set blank_file. is_ws c" by (simp add: is_ws_def NL_def blank_file_def)
  have b: "length blank_file \<le> maxChunkSize" by (simp add: maxChunkSize_def blank_file_def)
  have c: "totalLines blank_file = 2" by (simp add: totalLines_def NL_def blank_file_def)
  from chunkContent_whole_file_fallback[of blank_file "''README''"] a b
  have d: "accumulate_chunks blank_file ''README'' = []" by blast
  from chunkContent_whole_file_fallback[of blank_file "''README''"] d
  have "chunkContent blank_file ''README'' =
          [\<lparr>ch_content = ''File: '' @ ''README'' @ [NL, NL] @ blank_file, ch_startLine = 1,
            ch_endLine = totalLines blank_file\<rparr>]" by blast
  with a b c d show ?thesis by (simp add: list_all_iff)
qed

section \<open>Properties of the similarity search\<close>

lemma set_insert_by_score: "set (insert_by_score a xs) = insert a (set xs)"
  by (induction xs) auto

lemma set_sort_by_score: "set (sort_by_score xs) = set xs"
  unfolding sort_by_score_def by (induction xs) (auto simp: set_insert_by_score)

lemma length_insert_by_score: "length (insert_by_score a xs) = Suc (length xs)"
  by (induction xs) auto

lemma length_sort_by_score: "length (sort_by_score xs) = length xs"
  unfolding sort_by_score_def by (induction xs) (auto simp: length_insert_by_score)

lemma cosine_guard:
  "a = None \<or> b = None \<or> length (the a) \<noteq> length (the b) \<Longrightarrow> cosineSimilarity a b = Num 0"
  by (auto simp: cosineSimilarity_def split: option.splits)

lemma search_results:
  "r \<in> set (search vs q topK pid) \<Longrightarrow>
     \<exists>d \<in> set (vs_documents vs). matches_filter pid d \<and> r = score_doc q d"
  by (auto simp: search_def Let_def slice0_def set_sort_by_score dest!: in_set_takeD)

lemma search_length: "0 \<le> k \<Longrightarrow> length (search vs q (Some k) pid) \<le> nat k"
  by (simp add: search_def Let_def slice0_def)

lemma search_default_length: "length (search vs q None pid) \<le> 3"
  by (simp add: search_def Let_def slice0_def)

text \<open>
  Claim C10, as the code has it. \<open>search\<close> has no failing branch. Every
  result is a document of the store that the filter matches, with the score
  \<open>cosineSimilarity\<close> of the query and the embedding of that document; that
  score is 0 when the query or the embedding is missing or their lengths
  differ. For a \<open>topK\<close> that is not negative the result has at most \<open>topK\<close>
  elements, and at most 3 when \<open>topK\<close> is not given.
\<close>

theorem search_scores_and_limit:
  "(\<forall>r \<in> set (search vs q topK pid).
      \<exists>d \<in> set (vs_documents vs). matches_filter pid d \<and> r = score_doc q d
          \<and> sr_score r = cosineSimilarity q (vec_of (doc_embedding d)))
   \<and> (\<forall>d. q = None \<or> vec_of (doc_embedding d) = None
           \<or> length (the q) \<noteq> length (the (vec_of (doc_embedding d)))
        \<longrightarrow> sr_score (score_doc q d) = Num 0)
   \<and> (\<forall>k. 0 \<le> k \<longrightarrow> length (search vs q (Some k) pid) \<le> nat k)
   \<and> length (search vs q None pid) \<le> 3"
proof -
  have a: "\<forall>r \<in> set (search vs q topK pid).
      \<exists>d \<in> set (vs_documents vs). matches_filter pid d \<and> r = score_doc q d
          \<and> sr_score r = cosineSimilarity q (vec_of (doc_embedding d))"
    using search_results[of _ vs q topK pid] by (fastforce simp: score_doc_def)
  have b: "\<forall>d. q = None \<or> vec_of (doc_embedding d) = None
           \<or> length (the q) \<noteq> length (the (vec_of (doc_embedding d)))
        \<longrightarrow> sr_score (score_doc q d) = Num 0"
    using cosine_guard by (simp add: score_doc_def)
  from a b search_length search_default_length show ?thesis by blast
qed

lemma example_search:
  "search example_store (Some [1, 2, 3]) (Some 1) (Some ''p'')
     = [score_doc (Some [1, 2, 3]) (example_doc 0 ''a.js'' (Vector [1, 0]))]"
  by (simp add: search_def example_store_def matches_filter_def example_doc_def score_doc_def
      cosineSimilarity_def sort_by_score_def slice0_def Let_def)

text \<open>
  An instance: a query of dimension 3 against a stored embedding of dimension
  2 and a \<open>null\<close> embedding, with \<open>topK = 1\<close>: one result, with score 0.
\<close>

theorem search_scores_and_limit_witness:
  "(0::int) \<le> 1
   \<and> length (search example_store (Some [1, 2, 3]) (Some 1) (Some ''p'')) \<le> nat 1
   \<and> search example_store (Some [1, 2, 3]) (Some 1) (Some ''p'')
       = [score_doc (Some [1, 2, 3]) (example_doc 0 ''a.js'' (Vector [1, 0]))]
   \<and> length (the (Some [1, 2, 3 :: real]))
       \<noteq> length (the (vec_of (doc_embedding (example_doc 0 ''a.js'' (Vector [1, 0])))))
   \<and> sr_score (score_doc (Some [1, 2, 3]) (example_doc 0 ''a.js'' (Vector [1, 0]))) = Num 0"
proof -
  note T = search_scores_and_limit[of example_store "Some [1, 2, 3]" "Some 1" "Some ''p''"]
  have z: "(0::int) \<le> 1" by simp
  have m: "length (the (Some [1, 2, 3 :: real]))
       \<noteq> length (the (vec_of (doc_embedding (example_doc 0 ''a.js'' (Vector [1, 0])))))"
    by (simp add: example_doc_def)
  from T z have l: "length (search example_store (Some [1, 2, 3]) (Some 1) (Some ''p'')) \<le> nat 1"
    by blast
  from T m have s: "sr_score (score_doc (Some [1, 2, 3]) (example_doc 0 ''a.js'' (Vector [1, 0]))) = Num 0"
    by blast
  from z l m s example_search show ?thesis by blast
qed

text \<open>
  Claim C10 as stated, for every \<open>topK\<close>, fails for a negative one:
  \<open>slice(0, -1)\<close> keeps all but the last element, so that with two stored
  documents \<open>topK = -1\<close> returns one result.
\<close>

theorem search_negative_topK_counterexample:
  "length (search example_store None (Some (- 1)) None) = 1
   \<and> \<not> int (length (search example_store None (Some (- 1)) None)) \<le> - 1"
  by (simp add: search_def example_store_def matches_filter_def example_doc_def score_doc_def
      cosineSimilarity_def sort_by_score_def slice0_def Let_def)

text \<open>A negative \<open>topK\<close> drops that many results from the end of the ranking.\<close>

lemma search_negative_topK:
  "k < 0 \<Longrightarrow>
     length (search vs q (Some k) pid)
       = length (filter (matches_filter pid) (vs_documents vs)) - nat (- k)"
  by (simp add: search_def Let_def slice0_def length_sort_by_score)

section \<open>The job registry during a run\<close>

subsection \<open>What logging and progress reports change\<close>

lemma getJob_addJobLog:
  "getJob (addJobLog now j msg lvl jm) jid =
     (if j = jid
      then map_option (\<lambda>job. job\<lparr>job_logs := last_n 50 (job_logs job @
              [\<lparr>log_timestamp = now, log_level = lvl, log_message = msg,
                log_jobId = j, log_projectId = job_projectId job\<rparr>])\<rparr>) (getJob jm jid)
      else getJob jm jid)"
  by (auto simp: getJob_def addJobLog_def Let_def update_conv' last_n_def split: option.splits)

lemma core_addJobLog:
  "map_option job_core (getJob (addJobLog now j msg lvl jm) jid) = map_option job_core (getJob jm jid)"
  by (cases "getJob jm jid") (simp_all add: getJob_addJobLog job_core_def)

lemma history_addJobLog:
  "map_option job_history (getJob (addJobLog now j msg lvl jm) jid) = map_option job_history (getJob jm jid)"
  by (cases "getJob jm jid") (simp_all add: getJob_addJobLog)

lemma getJob_updateProgress_None:
  "getJob (updateProgress now j p None jm) jid =
     (if j = jid
      then map_option (\<lambda>job. job\<lparr>job_progress := min 100 (max 0 p),
              job_history := job_history job @ [min 100 (max 0 p)]\<rparr>) (getJob jm jid)
      else getJob jm jid)"
  by (auto simp: getJob_def updateProgress_def Let_def update_conv' split: option.splits)

lemma updateProgress_Some:
  "updateProgress now j p (Some m) jm =
     (if m = [] then updateProgress now j p None jm
      else addJobLog now j m ''info'' (updateProgress now j p None jm))"
  by (auto simp: updateProgress_def addJobLog_def Let_def split: option.splits)

lemma core_updateProgress_None:
  "map_option job_core (getJob (updateProgress now j p None jm) jid) = map_option job_core (getJob jm jid)"
  by (cases "getJob jm jid") (simp_all add: getJob_updateProgress_None job_core_def)

lemma core_updateProgress:
  "map_option job_core (getJob (updateProgress now j p msg jm) jid) = map_option job_core (getJob jm jid)"
  by (cases msg) (simp_all add: updateProgress_Some core_addJobLog core_updateProgress_None)

lemma history_updateProgress_None:
  "map_option job_history (getJob (updateProgress now j p None jm) jid) =
     (if j = jid then map_option (\<lambda>h. h @ [min 100 (max 0 p)]) (map_option job_history (getJob jm jid))
      else map_option job_history (getJob jm jid))"
  by (cases "getJob jm jid") (simp_all add: getJob_updateProgress_None)

lemma history_updateProgress:
  "map_option job_history (getJob (updateProgress now j p msg jm) jid) =
     (if j = jid then map_option (\<lambda>h. h @ [min 100 (max 0 p)]) (map_option job_history (getJob jm jid))
      else map_option job_history (getJob jm jid))"
  by (cases msg) (simp_all add: updateProgress_Some history_addJobLog history_updateProgress_None)

lemma jm_inv_logMethod:
  "jm_inv jid jm0 b jm \<Longrightarrow> jm_inv jid jm0 b (logMethod now sink msg lvl jm)"
  by (cases sink)
     (simp_all add: jm_inv_def same_core_def progress_upto_def logMethod_def core_addJobLog
        history_addJobLog)

lemma jm_inv_weaken: "jm_inv jid jm0 b jm \<Longrightarrow> b \<le> b' \<Longrightarrow> jm_inv jid jm0 b' jm"
  by (auto simp: jm_inv_def progress_upto_def list_all_iff split: option.splits)

lemma sorted_snoc_upto:
  "sorted xs \<Longrightarrow> list_all (\<lambda>x. x \<le> b) xs \<Longrightarrow> b \<le> p \<Longrightarrow> sorted (xs @ [p::rat]) \<and> list_all (\<lambda>x. x \<le> p) (xs @ [p])"
  by (auto simp: sorted_append list_all_iff)

lemma progress_upto_snoc:
  assumes "progress_upto jid b jm" "b \<le> p" "0 \<le> p" "p \<le> 100"
  shows "progress_upto jid p (updateProgress now j p msg jm)"
proof -
  have mm: "min 100 (max 0 p) = p" using assms by simp
  show ?thesis
  proof (cases "getJob jm jid")
    case None
    then show ?thesis by (simp add: progress_upto_def history_updateProgress)
  next
    case (Some job)
    with assms(1) have s: "sorted (job_history job)" "list_all (\<lambda>x. x \<le> b) (job_history job)"
      by (simp_all add: progress_upto_def)
    from sorted_snoc_upto[OF s assms(2)] s assms(2) Some show ?thesis
      by (auto simp: progress_upto_def history_updateProgress mm list_all_iff)
  qed
qed

lemma jm_inv_reportProgress:
  assumes "jm_inv jid jm0 b jm" "b \<le> p" "0 \<le> p" "p \<le> 100"
  shows "jm_inv jid jm0 p (reportProgress now sink p msg jm)"
proof (cases sink)
  case None
  with assms show ?thesis by (simp add: reportProgress_def jm_inv_weaken)
next
  case (Some j)
  from assms(1) have "progress_upto jid b jm" by (simp add: jm_inv_def)
  from progress_upto_snoc[OF this assms(2,3,4)]
  have "progress_upto jid p (updateProgress now j p (Some msg) jm)" .
  with assms(1) Some show ?thesis
    by (simp add: jm_inv_def same_core_def reportProgress_def core_updateProgress)
qed

lemma file_progress_mono: "i \<le> j \<Longrightarrow> file_progress d t i \<le> file_progress d t j"
  by (auto simp: file_progress_def startProgress_def endProgress_def divide_right_mono
      intro!: mult_right_mono)

lemma file_progress_0: "file_progress d t 0 = startProgress d"
  by (simp add: file_progress_def)

lemma file_progress_bounds: "i \<le> t \<Longrightarrow> 0 \<le> file_progress d t i \<and> file_progress d t i \<le> 85"
proof -
  assume le: "i \<le> t"
  obtain x :: rat where x: "x = of_nat i / of_nat t" by simp
  have q: "0 \<le> x \<and> x \<le> 1"
    using le by (cases "t = 0") (auto simp: x divide_le_eq_1)
  have "file_progress d t i = startProgress d + x * (endProgress - startProgress d)"
    by (simp only: file_progress_def x)
  then have "file_progress d t i = (if d then 20 + x * 65 else 15 + x * 70)"
    by (simp add: startProgress_def endProgress_def)
  with q show ?thesis by auto
qed

subsection \<open>The loop over the files\<close>

lemma jm_inv_file_error:
  "jm_inv jid jm0 b (ls_jm st) \<Longrightarrow> jm_inv jid jm0 b (ls_jm (file_error env sink file e st))"
  by (simp add: file_error_def jm_inv_logMethod)

lemma fileIndex_file_error [simp]: "ls_fileIndex (file_error env sink file e st) = ls_fileIndex st"
  by (simp add: file_error_def)

lemma fileIndex_index_file [simp]:
  "ls_fileIndex (index_file env sink pid d t file content mtime hash st) = ls_fileIndex st"
  by (simp add: index_file_def Let_def file_error_def split: prod.splits option.splits)

lemma jm_inv_index_file:
  assumes "jm_inv jid jm0 b (ls_jm st)" "b \<le> file_progress d t (ls_fileIndex st)"
    "ls_fileIndex st \<le> t"
  shows "jm_inv jid jm0 (file_progress d t (ls_fileIndex st))
           (ls_jm (index_file env sink pid d t file content mtime hash st))"
proof -
  let ?p = "file_progress d t (ls_fileIndex st)"
  have bnd: "0 \<le> ?p" "?p \<le> 100" using file_progress_bounds[OF assms(3), of d] by auto
  obtain err docs where
    e: "embed_chunks env (mk_document pid file content mtime hash (length (chunkContent content file)))
          (chunkContent content file) 0 (ls_documents st) = (err, docs)"
    by (cases "embed_chunks env (mk_document pid file content mtime hash (length (chunkContent content file)))
          (chunkContent content file) 0 (ls_documents st)") auto
  show ?thesis
  proof (cases err)
    case None
    have "jm_inv jid jm0 ?p (reportProgress (e_now env) sink ?p msg (ls_jm st))" for msg
      by (rule jm_inv_reportProgress[OF assms(1,2) bnd])
    then show ?thesis using e None
      by (simp add: index_file_def Let_def jm_inv_logMethod)
  next
    case (Some x)
    have "jm_inv jid jm0 b (ls_jm (file_error env sink file x (st\<lparr>ls_documents := docs\<rparr>)))"
      by (rule jm_inv_file_error) (simp add: assms(1))
    then have "jm_inv jid jm0 ?p (ls_jm (file_error env sink file x (st\<lparr>ls_documents := docs\<rparr>)))"
      using assms(2) by (rule jm_inv_weaken)
    then show ?thesis using e Some by (simp add: index_file_def Let_def)
  qed
qed

lemma fileIndex_process_file:
  "ls_fileIndex (process_file env sink dir pid d ex t file st)
     = ls_fileIndex st + (if isTextFile file then 1 else 0)"
  by (simp add: process_file_def Let_def split: sum.splits option.splits)

lemma process_file_not_text:
  "\<not> isTextFile file \<Longrightarrow>
     process_file env sink dir pid d ex t file st
       = st\<lparr>ls_currentFiles := List.insert file (ls_currentFiles st)\<rparr>"
  by (simp add: process_file_def Let_def)

lemma process_file_shape:
  assumes "isTextFile file"
  shows "(\<exists>e. process_file env sink dir pid d ex t file st = file_error env sink file e (entered file st))
       \<or> (\<exists>msg lvl. process_file env sink dir pid d ex t file st
              = (entered file st)\<lparr>ls_jm := logMethod (e_now env) sink msg lvl (ls_jm st)\<rparr>)
       \<or> (process_file env sink dir pid d ex t file st
              = (entered file st)\<lparr>ls_skipped := ls_skipped st + 1\<rparr>)
       \<or> (\<exists>content mtime hash s.
             process_file env sink dir pid d ex t file st
               = index_file env sink pid d t file content mtime hash s
             \<and> ls_jm s = ls_jm st \<and> ls_fileIndex s = Suc (ls_fileIndex st)
             \<and> ls_documents s = ls_documents st
             \<and> ls_currentFiles s = List.insert file (ls_currentFiles st)
             \<and> ls_vs s \<in> {ls_vs st, snd (removeFileChunks pid file (ls_vs st))}
             \<and> e_stat env (path_join dir file) = Inr mtime
             \<and> e_readFile env (path_join dir file) = Inr content
             \<and> hash = e_md5 env content)"
proof -
  show ?thesis
  proof (cases "e_stat env (path_join dir file)")
    case (Inl e)
    with assms(1) have "process_file env sink dir pid d ex t file st = file_error env sink file e (entered file st)"
      by (simp add: process_file_def Let_def entered_def)
    then show ?thesis by blast
  next
    case (Inr mtime)
    note st = this
    show ?thesis
    proof (cases "e_readFile env (path_join dir file)")
      case (Inl e)
      with assms(1) st have "process_file env sink dir pid d ex t file st = file_error env sink file e (entered file st)"
        by (simp add: process_file_def Let_def entered_def)
      then show ?thesis by blast
    next
      case (Inr content)
      note rd = this
      show ?thesis
      proof (cases "length content > 1024 * 1024")
        case True
        with assms(1) st rd have "process_file env sink dir pid d ex t file st
              = (entered file st)\<lparr>ls_jm := logMethod (e_now env) sink (''Skipping large file: '' @ file) ''warn'' (ls_jm st)\<rparr>"
          by (simp add: process_file_def Let_def entered_def)
        then show ?thesis by blast
      next
        case False
        note sz = this
        show ?thesis
        proof (cases "d \<and> truthy (get_property ex file)")
          case False
          note None = this
          let ?s = "if d then (entered file st)\<lparr>ls_added := ls_added (entered file st) + 1\<rparr> else (entered file st)"
          from None assms(1) st rd sz have "process_file env sink dir pid d ex t file st
               = index_file env sink pid d t file content mtime (e_md5 env content) ?s"
            by (simp add: process_file_def Let_def entered_def)
          moreover have "ls_jm ?s = ls_jm st \<and> ls_fileIndex ?s = Suc (ls_fileIndex st)
             \<and> ls_documents ?s = ls_documents st
             \<and> ls_currentFiles ?s = List.insert file (ls_currentFiles st) \<and> ls_vs ?s = ls_vs st"
            by (simp add: entered_def)
          ultimately show ?thesis using st rd by blast
        next
          case True
          note ex = this
          show ?thesis
          proof (cases "is_unchanged (get_property ex file) (e_md5 env content) (length content) mtime")
            case True
            with ex assms(1) st rd sz have "process_file env sink dir pid d ex t file st
                = (entered file st)\<lparr>ls_skipped := ls_skipped st + 1\<rparr>"
              by (simp add: process_file_def Let_def entered_def)
            then show ?thesis by blast
          next
            case False
            note ch = this
            show ?thesis
            proof (cases "e_removeFileChunks_error env pid file")
              case (Some e)
              with ex ch assms(1) st rd sz
              have "process_file env sink dir pid d ex t file st = file_error env sink file e (entered file st)"
                by (simp add: process_file_def Let_def entered_def)
              then show ?thesis by blast
            next
              case None
              let ?s = "(entered file st)\<lparr>ls_vs := snd (removeFileChunks pid file (ls_vs (entered file st))),
                             ls_updated := ls_updated (entered file st) + 1\<rparr>"
              from None ex ch assms(1) st rd sz
              have "process_file env sink dir pid d ex t file st
                 = index_file env sink pid d t file content mtime (e_md5 env content) ?s"
                by (simp add: process_file_def Let_def entered_def)
              moreover have "ls_jm ?s = ls_jm st \<and> ls_fileIndex ?s = Suc (ls_fileIndex st)
                 \<and> ls_documents ?s = ls_documents st
                 \<and> ls_currentFiles ?s = List.insert file (ls_currentFiles st)
                 \<and> ls_vs ?s = snd (removeFileChunks pid file (ls_vs st))"
                by (simp add: entered_def)
              ultimately show ?thesis using st rd by blast
            qed
          qed
        qed
      qed
    qed
  qed
qed

lemma jm_inv_process_file:
  assumes "jm_inv jid jm0 (file_progress d t (ls_fileIndex st)) (ls_jm st)"
    and "ls_fileIndex st + (if isTextFile file then 1 else 0) \<le> t"
  shows "jm_inv jid jm0 (file_progress d t (ls_fileIndex (process_file env sink dir pid d ex t file st)))
           (ls_jm (process_file env sink dir pid d ex t file st))"
proof (cases "isTextFile file")
  case False
  with assms show ?thesis by (simp add: process_file_not_text)
next
  case True
  let ?i = "Suc (ls_fileIndex st)"
  let ?r = "process_file env sink dir pid d ex t file st"
  have le: "file_progress d t (ls_fileIndex st) \<le> file_progress d t ?i"
    by (rule file_progress_mono) simp
  have it: "?i \<le> t" using assms(2) True by simp
  have w: "jm_inv jid jm0 (file_progress d t ?i) (ls_jm st)"
    using assms(1) le by (rule jm_inv_weaken)
  have fi: "ls_fileIndex ?r = ?i"
    using True by (simp add: fileIndex_process_file)
  have "jm_inv jid jm0 (file_progress d t ?i) (ls_jm ?r)"
    using process_file_shape[OF True, of env sink dir pid d ex t st]
  proof (elim disjE exE conjE)
    fix e
    assume "?r = file_error env sink file e (entered file st)"
    then show ?thesis using w by (simp add: file_error_def jm_inv_logMethod entered_def)
  next
    fix msg lvl
    assume "?r = (entered file st)\<lparr>ls_jm := logMethod (e_now env) sink msg lvl (ls_jm st)\<rparr>"
    then show ?thesis using w by (simp add: jm_inv_logMethod)
  next
    assume "?r = (entered file st)\<lparr>ls_skipped := ls_skipped st + 1\<rparr>"
    then show ?thesis using w by (simp add: entered_def)
  next
    fix content mtime hash s
    assume r: "?r = index_file env sink pid d t file content mtime hash s"
      and s: "ls_jm s = ls_jm st" "ls_fileIndex s = ?i"
    have "jm_inv jid jm0 (file_progress d t (ls_fileIndex s))
           (ls_jm (index_file env sink pid d t file content mtime hash s))"
      by (rule jm_inv_index_file[where b="file_progress d t (ls_fileIndex st)"])
         (use s assms(1) le it in simp_all)
    then show ?thesis using r s by simp
  qed
  then show ?thesis by (simp add: fi)
qed

lemma jm_inv_process_files:
  assumes "jm_inv jid jm0 (file_progress d t (ls_fileIndex st)) (ls_jm st)"
    and "ls_fileIndex st + length (filter isTextFile files) \<le> t"
  shows "jm_inv jid jm0 (file_progress d t (ls_fileIndex (process_files env sink dir pid d ex t files st)))
           (ls_jm (process_files env sink dir pid d ex t files st))
         \<and> ls_fileIndex (process_files env sink dir pid d ex t files st)
             = ls_fileIndex st + length (filter isTextFile files)"
  using assms
proof (induction files arbitrary: st)
  case Nil
  then show ?case by (simp add: process_files_def)
next
  case (Cons f fs)
  let ?s = "process_file env sink dir pid d ex t f st"
  have 1: "jm_inv jid jm0 (file_progress d t (ls_fileIndex ?s)) (ls_jm ?s)"
    by (rule jm_inv_process_file) (use Cons.prems in \<open>auto split: if_splits\<close>)
  have 2: "ls_fileIndex ?s + length (filter isTextFile fs) \<le> t"
    using Cons.prems(2) by (auto simp: fileIndex_process_file split: if_splits)
  have pf: "process_files env sink dir pid d ex t (f # fs) st = process_files env sink dir pid d ex t fs ?s"
    by (simp add: process_files_def)
  from Cons.IH[OF 1 2] show ?case
    unfolding pf by (auto simp: fileIndex_process_file)
qed

subsection \<open>The phases of indexDirectory\<close>

lemma startProgress_bounds: "10 \<le> startProgress d \<and> 15 \<le> startProgress d \<and> startProgress d \<le> 85"
  by (simp add: startProgress_def)

lemma jm_inv_load_existing:
  assumes "jm_inv jid jm0 10 jm" "load_existing env sink pid d jm vs = Inr (ex, jm')"
  shows "jm_inv jid jm0 (startProgress d) jm'"
proof (cases d)
  case False
  with assms show ?thesis
    using jm_inv_weaken[of jid jm0 10 jm "startProgress d"] startProgress_bounds[of d]
    by (simp add: load_existing_def)
next
  case True
  with assms(2) have jm': "jm' = reportProgress (e_now env) sink 15 ''Loaded existing file metadata''
        (logMethod (e_now env) sink
           (''Found '' @ show_nat (length (object_keys (getExistingFiles vs pid)))
              @ '' existing files in index'')
           ''info'' jm)"
    by (auto simp: load_existing_def Let_def split: option.splits)
  have "jm_inv jid jm0 15 jm'"
    unfolding jm'
    by (rule jm_inv_reportProgress[where b=10], intro jm_inv_logMethod, rule assms(1)) simp_all
  then show ?thesis using startProgress_bounds[of d] by (auto intro: jm_inv_weaken)
qed

lemma jm_inv_delete_phase:
  assumes "jm_inv jid jm0 85 (ls_jm st)"
  shows "(delete_phase env sink pid d ex st = Inl (e, st') \<longrightarrow> jm_inv jid jm0 87 (ls_jm st'))
       \<and> (delete_phase env sink pid d ex st = Inr (n, st') \<longrightarrow> jm_inv jid jm0 87 (ls_jm st'))"
proof (cases d)
  case False
  with assms show ?thesis
    using jm_inv_weaken[of jid jm0 85 "ls_jm st" 87]
    by (auto simp: delete_phase_def)
next
  case True
  have r: "jm_inv jid jm0 87 (reportProgress (e_now env) sink 87 ''Checking for deleted files...'' (ls_jm st))"
    by (rule jm_inv_reportProgress[OF assms]) simp_all
  with True show ?thesis
    by (auto simp: delete_phase_def Let_def jm_inv_logMethod split: prod.splits option.splits)
qed

lemma jm_inv_index_failed:
  "jm_inv jid jm0 b jm \<Longrightarrow> index_failed env sink e jm vs = (r, jm', vs') \<Longrightarrow> jm_inv jid jm0 b jm'"
  by (auto simp: index_failed_def jm_inv_logMethod)

lemma jm_inv_save_phase:
  assumes "jm_inv jid jm0 87 (ls_jm st)"
    and "save_phase env sink dir pid excl d t n st = (r, jm', vs')"
  shows "jm_inv jid jm0 100 jm'"
proof -
  let ?now = "e_now env"
  have p90: "jm_inv jid jm0 90 (reportProgress ?now sink 90 ''Saving documents to database...'' (ls_jm st))"
    by (rule jm_inv_reportProgress[OF assms(1)]) simp_all
  have w90: "jm_inv jid jm0 90 (ls_jm st)" using assms(1) by (rule jm_inv_weaken) simp
  have p95: "jm_inv jid jm0 95 (reportProgress ?now sink 95 ''Saving project metadata...'' jm)"
    if "jm_inv jid jm0 90 jm" for jm
    by (rule jm_inv_reportProgress[OF that]) simp_all
  have p100: "jm_inv jid jm0 100 (reportProgress ?now sink 100 ''Indexing completed successfully'' jm)"
    if "jm_inv jid jm0 95 jm" for jm
    by (rule jm_inv_reportProgress[OF that]) simp_all
  have up: "jm_inv jid jm0 100 jm" if "jm_inv jid jm0 b jm" "b \<le> 100" for jm b
    using that by (rule jm_inv_weaken)
  show ?thesis
    using assms(2) p90 w90
    by (auto simp: save_phase_def Let_def index_failed_def
        intro!: jm_inv_logMethod p100 p95 intro: up[where b=90] up[where b=95]
        split: if_splits option.splits sum.splits prod.splits)
qed

lemma jm_inv_indexDirectory:
  assumes "jm_inv jid jm0 5 jm"
    and "indexDirectory env has_jm dir pid excl d jobId jm vs = (r, jm', vs')"
  shows "jm_inv jid jm0 100 jm'"
proof -
  let ?now = "e_now env"
  let ?sink = "job_sink has_jm jobId"
  let ?allExcludes = "defaultExcludes @ excl"
  let ?jm3 = "logMethod ?now ?sink (''Excluding: '' @ join_with '', '' ?allExcludes) ''info''
        (logMethod ?now ?sink (''Directory: '' @ dir) ''info''
          (logMethod ?now ?sink
            (''Starting '' @ (if d then ''delta '' else []) @ ''indexing for project: '' @ pid) ''info'' jm))"
  let ?jm4 = "reportProgress ?now ?sink 5 ''Scanning directory...'' ?jm3"
  have i4: "jm_inv jid jm0 5 ?jm4"
    by (rule jm_inv_reportProgress[where b=5], intro jm_inv_logMethod, rule assms(1)) simp_all
  have up: "jm_inv jid jm0 100 x" if "jm_inv jid jm0 b x" "b \<le> 100" for x b
    using that by (rule jm_inv_weaken)
  show ?thesis
  proof (cases "e_glob env dir ?allExcludes")
    case (Inl e)
    with assms(2) have "jm' = logMethod ?now ?sink (''Error during indexing: '' @ e) ''error'' ?jm4"
      by (simp add: indexDirectory_def Let_def index_failed_def)
    then show ?thesis using i4 by (auto intro!: up[where b=5] jm_inv_logMethod)
  next
    case (Inr files)
    let ?t = "length (filter isTextFile files)"
    let ?jm5 = "logMethod ?now ?sink
                          (''Found '' @ show_nat (length files) @ '' files, ''
                           @ show_nat ?t @ '' text files to ''
                           @ (if d then ''check for changes'' else ''index'')) ''info'' ?jm4"
    let ?jm6 = "reportProgress ?now ?sink 10 (''Found '' @ show_nat ?t @ '' files to process'') ?jm5"
    have i6: "jm_inv jid jm0 10 ?jm6"
      by (rule jm_inv_reportProgress[where b=5], intro jm_inv_logMethod, rule i4) simp_all
    show ?thesis
    proof (cases "load_existing env ?sink pid d ?jm6 vs")
      case (Inl e)
      with assms(2) Inr have "jm' = logMethod ?now ?sink (''Error during indexing: '' @ e) ''error'' ?jm6"
        by (simp add: indexDirectory_def Let_def index_failed_def)
      then show ?thesis using i6 by (auto intro!: up[where b=10] jm_inv_logMethod)
    next
      case (Inr exjm)
      obtain ex jm7 where exjm: "exjm = (ex, jm7)" by (cases exjm)
      note le = Inr[unfolded exjm]
      have i7: "jm_inv jid jm0 (startProgress d) jm7"
        by (rule jm_inv_load_existing[OF i6 le])
      let ?st = "process_files env ?sink dir pid d ex ?t files (init_loop_state jm7 vs)"
      have R: "jm_inv jid jm0 (file_progress d ?t (ls_fileIndex ?st)) (ls_jm ?st)
            \<and> ls_fileIndex ?st = ls_fileIndex (init_loop_state jm7 vs) + ?t"
        by (rule jm_inv_process_files) (simp_all add: init_loop_state_def file_progress_0 i7)
      from R have A: "jm_inv jid jm0 (file_progress d ?t (ls_fileIndex ?st)) (ls_jm ?st)"
        by (rule conjunct1)
      from R have B: "ls_fileIndex ?st = ?t"
        by (simp add: init_loop_state_def)
      from A have a: "jm_inv jid jm0 (file_progress d ?t ?t) (ls_jm ?st)"
        by (simp only: B)
      have i85: "jm_inv jid jm0 85 (ls_jm ?st)"
        using a file_progress_bounds[of ?t ?t d] by (auto intro: jm_inv_weaken)
      note dp = jm_inv_delete_phase[OF i85, of env ?sink pid d ex]
      show ?thesis
      proof (cases "delete_phase env ?sink pid d ex ?st")
        case (Inl est)
        obtain e st1 where est: "est = (e, st1)" by (cases est)
        from dp[of e st1] Inl est have "jm_inv jid jm0 87 (ls_jm st1)" by simp
        moreover from assms(2) \<open>e_glob env dir ?allExcludes = Inr files\<close> le Inl est
        have "jm' = logMethod ?now ?sink (''Error during indexing: '' @ e) ''error'' (ls_jm st1)"
          by (simp add: indexDirectory_def Let_def index_failed_def)
        ultimately show ?thesis by (auto intro!: up[where b=87] jm_inv_logMethod)
      next
        case (Inr nst)
        obtain n st1 where nst: "nst = (n, st1)" by (cases nst)
        from dp[of _ st1 n] Inr nst have i87: "jm_inv jid jm0 87 (ls_jm st1)" by simp
        from assms(2) \<open>e_glob env dir ?allExcludes = Inr files\<close> le Inr nst
        have "save_phase env ?sink dir pid excl d ?t n st1 = (r, jm', vs')"
          by (simp add: indexDirectory_def Let_def)
        from jm_inv_save_phase[OF i87 this] show ?thesis .
      qed
    qed
  qed
qed

subsection \<open>runIndexJob\<close>

lemma getJob_updateJob:
  "getJob (snd (updateJob now j u jm)) jid =
     (if j = jid
      then map_option (\<lambda>job. if u_status u = Some Completed \<or> u_status u = Some Failed
                              then (assign_updates job u)\<lparr>job_endTime := Some now,
                                     job_duration := Some (now - job_startTime (assign_updates job u))\<rparr>
                              else assign_updates job u) (getJob jm jid)
      else getJob jm jid)"
  by (auto simp: getJob_def updateJob_def Let_def update_conv' split: option.splits)

lemma getJob_mark_running:
  "getJob (mark_running now j jm) jid =
     (if j = jid then map_option (\<lambda>job. job\<lparr>job_status := Running\<rparr>) (getJob jm jid)
      else getJob jm jid)"
  by (cases "getJob jm jid")
     (simp_all add: mark_running_def getJob_updateJob assign_updates_def no_updates_def Let_def)

lemma assign_completed:
  "assign_updates job (completed_updates res) =
     job\<lparr>job_status := Completed, job_result := Some res, job_progress := 100,
         job_history := job_history job @ [100],
         job_stats := \<lparr>st_filesTotal = (if res_filesTotal res \<noteq> 0 then res_filesTotal res
                                        else res_filesProcessed res),
                      st_filesProcessed = res_filesProcessed res,
                      st_chunksIndexed = res_chunksIndexed res,
                      st_deltaStats = res_deltaStats res\<rparr>\<rparr>"
  by (simp add: assign_updates_def completed_updates_def Let_def)

lemma assign_failed:
  "assign_updates job (failed_updates e) =
     job\<lparr>job_status := Failed, job_error := Some e, job_progress := 0,
         job_history := job_history job @ [0]\<rparr>"
  by (simp add: assign_updates_def failed_updates_def Let_def)

text \<open>What finish_job leaves of the job, up to its logs.\<close>

lemma finish_job_Inr:
  assumes "getJob jm2 jid = Some job2"
  shows "\<exists>logs. getJob (fst (snd (finish_job now jid (Inr res, jm2, vs2)))) jid =
     Some ((assign_updates job2 (completed_updates res))\<lparr>job_endTime := Some now,
        job_duration := Some (now - job_startTime job2), job_logs := logs\<rparr>)"
proof -
  let ?j3 = "(assign_updates job2 (completed_updates res))\<lparr>job_endTime := Some now,
        job_duration := Some (now - job_startTime job2)\<rparr>"
  have g3: "getJob (snd (updateJob now jid (completed_updates res) jm2)) jid = Some ?j3"
    using assms by (simp add: getJob_updateJob completed_updates_def assign_updates_def Let_def)
  have step: "\<exists>logs. getJob (addJobLog now jid m l jm) jid = Some (?j3\<lparr>job_logs := logs\<rparr>)"
    if "\<exists>logs. getJob jm jid = Some (?j3\<lparr>job_logs := logs\<rparr>)" for jm m l
    using that by (auto simp: getJob_addJobLog)
  have g0: "\<exists>logs. getJob (snd (updateJob now jid (completed_updates res) jm2)) jid = Some (?j3\<lparr>job_logs := logs\<rparr>)"
    using g3 by (intro exI[of _ "job_logs ?j3"]) simp
  show ?thesis
    by (cases "res_deltaStats res") (simp_all add: finish_job_def Let_def step g0)
qed

lemma finish_job_Inl:
  assumes "getJob jm2 jid = Some job2"
  shows "\<exists>logs. getJob (fst (snd (finish_job now jid (Inl e, jm2, vs2)))) jid =
     Some ((assign_updates job2 (failed_updates e))\<lparr>job_endTime := Some now,
        job_duration := Some (now - job_startTime job2), job_logs := logs\<rparr>)"
proof -
  let ?j3 = "(assign_updates job2 (failed_updates e))\<lparr>job_endTime := Some now,
        job_duration := Some (now - job_startTime job2)\<rparr>"
  have g3: "getJob (snd (updateJob now jid (failed_updates e) jm2)) jid = Some ?j3"
    using assms by (simp add: getJob_updateJob failed_updates_def assign_updates_def Let_def)
  have step: "\<exists>logs. getJob (addJobLog now jid m l jm) jid = Some (?j3\<lparr>job_logs := logs\<rparr>)"
    if "\<exists>logs. getJob jm jid = Some (?j3\<lparr>job_logs := logs\<rparr>)" for jm m l
    using that by (auto simp: getJob_addJobLog)
  have g0: "\<exists>logs. getJob (snd (updateJob now jid (failed_updates e) jm2)) jid = Some (?j3\<lparr>job_logs := logs\<rparr>)"
    using g3 by (intro exI[of _ "job_logs ?j3"]) simp
  show ?thesis
    by (simp add: finish_job_def Let_def step g0)
qed

lemma finish_job_fst [simp]: "fst (finish_job now jid (r, jm2, vs2)) = r"
  by (cases r) (simp_all add: finish_job_def Let_def)

text \<open>The job after the indexing call of runIndexJob.\<close>

lemma run_indexing_job:
  assumes g: "getJob jm jid = Some job"
    and h: "sorted (job_history job)" "list_all (\<lambda>x. x \<le> 5) (job_history job)"
    and run: "indexDirectory env has_jm dir pid excl d (Some jid) (mark_running now jid jm) vs = (r, jm2, vs2)"
  shows "\<exists>job2. getJob jm2 jid = Some job2 \<and> job_status job2 = Running
          \<and> job_startTime job2 = job_startTime job \<and> job_endTime job2 = job_endTime job
          \<and> sorted (job_history job2) \<and> list_all (\<lambda>x. x \<le> 100) (job_history job2)"
proof -
  let ?jm1 = "mark_running now jid jm"
  have g1: "getJob ?jm1 jid = Some (job\<lparr>job_status := Running\<rparr>)"
    using g by (simp add: getJob_mark_running)
  have "jm_inv jid ?jm1 5 ?jm1"
    using g1 h by (simp add: jm_inv_def same_core_def progress_upto_def)
  from jm_inv_indexDirectory[OF this run] have i: "jm_inv jid ?jm1 100 jm2" .
  then have c: "map_option job_core (getJob jm2 jid) = map_option job_core (getJob ?jm1 jid)"
    by (simp add: jm_inv_def same_core_def)
  then obtain job2 where g2: "getJob jm2 jid = Some job2" using g1 by (cases "getJob jm2 jid") auto
  with c g1 have "job_core job2 = job_core (job\<lparr>job_status := Running\<rparr>)" by simp
  moreover from i g2 have "sorted (job_history job2) \<and> list_all (\<lambda>x. x \<le> 100) (job_history job2)"
    by (simp add: jm_inv_def progress_upto_def)
  ultimately show ?thesis using g2 by (simp add: job_core_def)
qed


lemma ex_unused_jobId: "\<exists>jid. getJob jm jid = None"
proof -
  have "finite (fst ` set (jm_jobs jm))" by simp
  moreover have "infinite (UNIV :: string set)" by (rule infinite_UNIV_listI)
  ultimately obtain jid where "jid \<notin> fst ` set (jm_jobs jm)"
    using ex_new_if_finite by blast
  then have "getJob jm jid = None" by (simp add: getJob_def map_of_eq_None_iff)
  then show ?thesis ..
qed

lemma same_core_indexDirectory:
  assumes "indexDirectory env has_jm dir pid excl d jobId jm vs = (r, jm', vs')"
  shows "same_core jm jm'"
proof -
  obtain jid where n: "getJob jm jid = None" using ex_unused_jobId by blast
  then have "jm_inv jid jm 5 jm" by (simp add: jm_inv_def same_core_def progress_upto_def)
  from jm_inv_indexDirectory[OF this assms] show ?thesis by (simp add: jm_inv_def)
qed

lemma indexDirectory_glob_fails:
  "e_glob env dir (defaultExcludes @ excl) = Inl e \<Longrightarrow>
     fst (indexDirectory env has_jm dir pid excl d jobId jm vs) = Inl e
     \<and> snd (snd (indexDirectory env has_jm dir pid excl d jobId jm vs)) = vs"
  by (simp add: indexDirectory_def Let_def index_failed_def)

lemma runIndexJob_job:
  assumes g: "getJob jm jid = Some job"
  shows "case runIndexJob env has_jm jid dir pid excl d jm vs of
           (r, jm', vs') \<Rightarrow>
             r = fst (indexDirectory env has_jm dir pid excl d (Some jid) (mark_running (e_now env) jid jm) vs)
             \<and> (\<exists>job'. getJob jm' jid = Some job'
                \<and> job_status job' = (case r of Inr res \<Rightarrow> Completed | Inl e \<Rightarrow> Failed)
                \<and> job_error job' = (case r of Inr res \<Rightarrow> job_error job | Inl e \<Rightarrow> Some e)
                \<and> job_result job' = (case r of Inr res \<Rightarrow> Some res | Inl e \<Rightarrow> job_result job)
                \<and> job_endTime job' = Some (e_now env)
                \<and> job_startTime job' = job_startTime job)"
proof -
  let ?jm1 = "mark_running (e_now env) jid jm"
  obtain r jm2 vs2 where
    run: "indexDirectory env has_jm dir pid excl d (Some jid) ?jm1 vs = (r, jm2, vs2)"
    by (metis prod_cases3)
  have g1: "getJob ?jm1 jid = Some (job\<lparr>job_status := Running\<rparr>)"
    using g by (simp add: getJob_mark_running)
  from same_core_indexDirectory[OF run]
  have c: "map_option job_core (getJob jm2 jid) = map_option job_core (getJob ?jm1 jid)"
    by (simp add: same_core_def)
  then obtain job2 where g2: "getJob jm2 jid = Some job2" using g1 by (cases "getJob jm2 jid") auto
  with c g1 have core: "job_core job2 = job_core (job\<lparr>job_status := Running\<rparr>)" by simp
  have rj: "runIndexJob env has_jm jid dir pid excl d jm vs = finish_job (e_now env) jid (r, jm2, vs2)"
    using g run by (simp add: runIndexJob_def getJob_def)
  obtain r' jm' vs' where f: "finish_job (e_now env) jid (r, jm2, vs2) = (r', jm', vs')"
    by (metis prod_cases3)
  have r': "r' = r" using finish_job_fst[of "e_now env" jid r jm2 vs2] f by simp
  show ?thesis
  proof (cases r)
    case (Inr res)
    from finish_job_Inr[OF g2, of "e_now env" res vs2] f Inr
    obtain logs where "getJob jm' jid = Some ((assign_updates job2 (completed_updates res))\<lparr>job_endTime := Some (e_now env),
        job_duration := Some (e_now env - job_startTime job2), job_logs := logs\<rparr>)"
      by auto
    then show ?thesis using rj f r' Inr core run by (simp add: assign_completed job_core_def)
  next
    case (Inl e)
    from finish_job_Inl[OF g2, of "e_now env" e vs2] f Inl
    obtain logs where "getJob jm' jid = Some ((assign_updates job2 (failed_updates e))\<lparr>job_endTime := Some (e_now env),
        job_duration := Some (e_now env - job_startTime job2), job_logs := logs\<rparr>)"
      by auto
    then show ?thesis using rj f r' Inl core run by (simp add: assign_failed job_core_def)
  qed
qed

lemma running_during_indexing:
  assumes g: "getJob jm jid = Some job"
  shows "map_option job_status
           (getJob (fst (snd (indexDirectory env has_jm dir pid excl d (Some jid)
                                (mark_running (e_now env) jid jm) vs))) jid) = Some Running"
proof -
  let ?jm1 = "mark_running (e_now env) jid jm"
  obtain r jm2 vs2 where
    run: "indexDirectory env has_jm dir pid excl d (Some jid) ?jm1 vs = (r, jm2, vs2)"
    by (metis prod_cases3)
  have g1: "getJob ?jm1 jid = Some (job\<lparr>job_status := Running\<rparr>)"
    using g by (simp add: getJob_mark_running)
  from same_core_indexDirectory[OF run]
  have c: "map_option job_core (getJob jm2 jid) = map_option job_core (getJob ?jm1 jid)"
    by (simp add: same_core_def)
  then obtain job2 where g2: "getJob jm2 jid = Some job2" using g1 by (cases "getJob jm2 jid") auto
  with c g1 have "job_core job2 = job_core (job\<lparr>job_status := Running\<rparr>)" by simp
  then show ?thesis using run g2 by (simp add: job_core_def)
qed

lemma createJob_props:
  "case createJob now type pid params jm of
     (job, jm') \<Rightarrow> job_status job = Pending \<and> job_progress job = 0 \<and> job_endTime job = None
        \<and> job_startTime job = now \<and> job_history job = [0] \<and> getJob jm' (job_id job) = Some job"
  by (simp add: createJob_def Let_def getJob_def update_conv')

lemma status_addJobLog:
  "map_option job_status (getJob (addJobLog now j msg lvl jm) jid) = map_option job_status (getJob jm jid)"
  by (cases "getJob jm jid") (simp_all add: getJob_addJobLog)

lemma status_updateProgress:
  "map_option job_status (getJob (updateProgress now j p msg jm) jid) = map_option job_status (getJob jm jid)"
  using core_updateProgress[of now j p msg jm jid]
  by (cases "getJob jm jid"; cases "getJob (updateProgress now j p msg jm) jid") (simp_all add: job_core_def)

lemma indexDirectory_empty_dir:
  "fst (indexDirectory (example_env (Inr []) c) hj dir pid excl False jobId jm vs)
     = Inr \<lparr>res_success = True, res_filesProcessed = 0, res_chunksIndexed = 0,
            res_projectId = pid, res_filesTotal = 0, res_deltaStats = None\<rparr>"
  by (simp add: indexDirectory_def Let_def load_existing_def process_files_def delete_phase_def
      save_phase_def init_loop_state_def example_env_def)

section \<open>Properties of runIndexJob\<close>

lemma runIndexJob_fst:
  assumes "getJob jm jid = Some job"
  shows "fst (runIndexJob env has_jm jid dir pid excl d jm vs)
           = fst (indexDirectory env has_jm dir pid excl d (Some jid) (mark_running (e_now env) jid jm) vs)"
  using runIndexJob_job[OF assms, of env has_jm dir pid excl d vs]
  by (cases "runIndexJob env has_jm jid dir pid excl d jm vs") simp

lemma example_getJob: "getJob example_jm ''job_1_0'' = Some example_job"
  by (simp add: example_jm_def getJob_def)

lemma example_run_empty:
  "fst (runIndexJob (example_env (Inr []) ''x'') True ''job_1_0'' ''/src'' ''p'' [] False
         example_jm example_store)
     = Inr \<lparr>res_success = True, res_filesProcessed = 0, res_chunksIndexed = 0,
            res_projectId = ''p'', res_filesTotal = 0, res_deltaStats = None\<rparr>"
  by (simp add: runIndexJob_fst[OF example_getJob] indexDirectory_empty_dir)

lemma example_run_fails:
  "getJob jm ''job_1_0'' = Some job \<Longrightarrow>
   fst (runIndexJob (example_env (Inl ''ENOENT'') ''x'') True ''job_1_0'' ''/src'' ''p'' [] False
         jm example_store) = Inl ''ENOENT''"
  by (simp add: runIndexJob_fst indexDirectory_glob_fails example_env_def)

text \<open>
  Claim C6. For a job whose recorded progress values are non-decreasing and at
  most 5 (a created job has the single value 0), the values assigned to
  \<open>progress\<close> up to the end of \<open>runIndexJob\<close> are non-decreasing and end
  with 100 when the run succeeds; when it fails, the values before the last
  are non-decreasing and the last one, set by the \<open>catch\<close> block, is 0.
\<close>

theorem runIndexJob_progress_monotone:
  assumes "getJob jm jobId = Some job"
    and "sorted (job_history job)" and "list_all (\<lambda>x. x \<le> 5) (job_history job)"
  shows "case runIndexJob env has_jm jobId dir pid excl d jm vs of
           (r, jm', vs') \<Rightarrow>
             (\<exists>job'. getJob jm' jobId = Some job'
                \<and> (case r of
                      Inr res \<Rightarrow> sorted (job_history job') \<and> last (job_history job') = 100
                                  \<and> job_progress job' = 100
                    | Inl e \<Rightarrow> sorted (butlast (job_history job')) \<and> last (job_history job') = 0
                                \<and> job_progress job' = 0))"
proof -
  obtain r jm2 vs2 where
    run: "indexDirectory env has_jm dir pid excl d (Some jobId) (mark_running (e_now env) jobId jm) vs = (r, jm2, vs2)"
    by (metis prod_cases3)
  from run_indexing_job[OF assms run] obtain job2 where
    j2: "getJob jm2 jobId = Some job2" "sorted (job_history job2)"
        "list_all (\<lambda>x. x \<le> 100) (job_history job2)"
    by blast
  have rj: "runIndexJob env has_jm jobId dir pid excl d jm vs = finish_job (e_now env) jobId (r, jm2, vs2)"
    using assms(1) run by (simp add: runIndexJob_def getJob_def)
  obtain r' jm' vs' where f: "finish_job (e_now env) jobId (r, jm2, vs2) = (r', jm', vs')"
    by (metis prod_cases3)
  have r': "r' = r" using finish_job_fst[of "e_now env" jobId r jm2 vs2] f by simp
  have s100: "sorted (job_history job2 @ [100])"
    using j2 by (auto simp: sorted_append list_all_iff)
  show ?thesis
  proof (cases r)
    case (Inr res)
    from finish_job_Inr[OF j2(1), of "e_now env" res vs2] f Inr
    obtain logs where "getJob jm' jobId = Some ((assign_updates job2 (completed_updates res))\<lparr>job_endTime := Some (e_now env),
        job_duration := Some (e_now env - job_startTime job2), job_logs := logs\<rparr>)"
      by auto
    then show ?thesis using rj f r' Inr s100 by (simp add: assign_completed)
  next
    case (Inl e)
    from finish_job_Inl[OF j2(1), of "e_now env" e vs2] f Inl
    obtain logs where "getJob jm' jobId = Some ((assign_updates job2 (failed_updates e))\<lparr>job_endTime := Some (e_now env),
        job_duration := Some (e_now env - job_startTime job2), job_logs := logs\<rparr>)"
      by auto
    then show ?thesis using rj f r' Inl j2 by (simp add: assign_failed)
  qed
qed

text \<open>
  Two instances on a created job: the run over an empty directory succeeds and
  ends at 100; the run whose directory listing fails ends at 0.
\<close>

theorem runIndexJob_progress_monotone_witness:
  "getJob example_jm ''job_1_0'' = Some example_job
   \<and> sorted (job_history example_job) \<and> list_all (\<lambda>x. x \<le> 5) (job_history example_job)
   \<and> (\<exists>res job'. fst (runIndexJob (example_env (Inr []) ''x'') True ''job_1_0'' ''/src'' ''p'' []
                          False example_jm example_store) = Inr res
          \<and> getJob (fst (snd (runIndexJob (example_env (Inr []) ''x'') True ''job_1_0'' ''/src''
                                 ''p'' [] False example_jm example_store))) ''job_1_0'' = Some job'
          \<and> sorted (job_history job') \<and> last (job_history job') = 100 \<and> job_progress job' = 100)
   \<and> (\<exists>e job'. fst (runIndexJob (example_env (Inl ''ENOENT'') ''x'') True ''job_1_0'' ''/src'' ''p''
                        [] False example_jm example_store) = Inl e
          \<and> getJob (fst (snd (runIndexJob (example_env (Inl ''ENOENT'') ''x'') True ''job_1_0''
                                 ''/src'' ''p'' [] False example_jm example_store))) ''job_1_0''
              = Some job'
          \<and> sorted (butlast (job_history job')) \<and> last (job_history job') = 0
          \<and> job_progress job' = 0)"
proof -
  have h: "sorted (job_history example_job)" "list_all (\<lambda>x. x \<le> 5) (job_history example_job)"
    by (simp_all add: example_job_def)
  note T1 = runIndexJob_progress_monotone[OF example_getJob h,
      of "example_env (Inr []) ''x''" True "''/src''" "''p''" "[]" False example_store]
  note T2 = runIndexJob_progress_monotone[OF example_getJob h,
      of "example_env (Inl ''ENOENT'') ''x''" True "''/src''" "''p''" "[]" False example_store]
  have a: "\<exists>res job'. fst (runIndexJob (example_env (Inr []) ''x'') True ''job_1_0'' ''/src'' ''p'' []
                          False example_jm example_store) = Inr res
          \<and> getJob (fst (snd (runIndexJob (example_env (Inr []) ''x'') True ''job_1_0'' ''/src''
                                 ''p'' [] False example_jm example_store))) ''job_1_0'' = Some job'
          \<and> sorted (job_history job') \<and> last (job_history job') = 100 \<and> job_progress job' = 100"
    using T1 example_run_empty
    by (cases "runIndexJob (example_env (Inr []) ''x'') True ''job_1_0'' ''/src'' ''p'' []
                          False example_jm example_store") auto
  have b: "\<exists>e job'. fst (runIndexJob (example_env (Inl ''ENOENT'') ''x'') True ''job_1_0'' ''/src'' ''p''
                        [] False example_jm example_store) = Inl e
          \<and> getJob (fst (snd (runIndexJob (example_env (Inl ''ENOENT'') ''x'') True ''job_1_0''
                                 ''/src'' ''p'' [] False example_jm example_store))) ''job_1_0''
              = Some job'
          \<and> sorted (butlast (job_history job')) \<and> last (job_history job') = 0
          \<and> job_progress job' = 0"
    using T2 example_run_fails[OF example_getJob]
    by (cases "runIndexJob (example_env (Inl ''ENOENT'') ''x'') True ''job_1_0'' ''/src'' ''p'' []
                          False example_jm example_store") auto
  from example_getJob h a b show ?thesis by blast
qed

text \<open>
  Claim C5, as the code has it. A job made by \<open>createJob\<close> is pending, with
  progress 0 and no end time, and is registered under its id. For a job of the
  registry, \<open>runIndexJob\<close> first sets the status to running, the indexing runs
  and ends with the job still running, and the job ends completed when the
  indexing returned and failed when it threw, with the end time set to the
  clock reading, which is not before the start time when the clock has not
  gone back. \<open>addJobLog\<close> and \<open>updateProgress\<close> leave every status as it is,
  and \<open>cleanupOldJobs\<close> changes no job that it keeps. Nothing in
  \<open>runIndexJob\<close> or \<open>updateJob\<close> looks at the status the job had.
\<close>

theorem job_lifecycle:
  "(case createJob now type projectId params jm0 of
      (job, jm') \<Rightarrow> job_status job = Pending \<and> job_progress job = 0 \<and> job_endTime job = None
                    \<and> getJob jm' (job_id job) = Some job)
   \<and> (getJob jm jobId = Some job \<longrightarrow>
        getJob (mark_running (e_now env) jobId jm) jobId = Some (job\<lparr>job_status := Running\<rparr>)
        \<and> map_option job_status
             (getJob (fst (snd (indexDirectory env has_jm dir pid excl d (Some jobId)
                                  (mark_running (e_now env) jobId jm) vs))) jobId) = Some Running
        \<and> runIndexJob env has_jm jobId dir pid excl d jm vs
            = finish_job (e_now env) jobId
                (indexDirectory env has_jm dir pid excl d (Some jobId)
                   (mark_running (e_now env) jobId jm) vs)
        \<and> (case runIndexJob env has_jm jobId dir pid excl d jm vs of
              (r, jm', vs') \<Rightarrow>
                (\<exists>job'. getJob jm' jobId = Some job'
                   \<and> job_status job' = (case r of Inr res \<Rightarrow> Completed | Inl e \<Rightarrow> Failed)
                   \<and> job_endTime job' = Some (e_now env)
                   \<and> job_startTime job' = job_startTime job
                   \<and> (job_startTime job \<le> e_now env \<longrightarrow>
                        (\<exists>t. job_endTime job' = Some t \<and> job_startTime job' \<le> t)))))
   \<and> map_option job_status (getJob (addJobLog now j msg lvl jm) jobId)
        = map_option job_status (getJob jm jobId)
   \<and> map_option job_status (getJob (updateProgress now j p m jm) jobId)
        = map_option job_status (getJob jm jobId)
   \<and> (distinct (map fst (jm_jobs jm)) \<longrightarrow>
        (\<forall>job'. getJob (snd (cleanupOldJobs now maxAge jm)) jobId = Some job'
            \<longrightarrow> getJob jm jobId = Some job'))"
proof -
  have a: "case createJob now type projectId params jm0 of
      (job, jm') \<Rightarrow> job_status job = Pending \<and> job_progress job = 0 \<and> job_endTime job = None
                    \<and> getJob jm' (job_id job) = Some job"
    using createJob_props[of now type projectId params jm0] by (auto split: prod.splits)
  have b: "getJob (mark_running (e_now env) jobId jm) jobId = Some (job\<lparr>job_status := Running\<rparr>)
        \<and> map_option job_status
             (getJob (fst (snd (indexDirectory env has_jm dir pid excl d (Some jobId)
                                  (mark_running (e_now env) jobId jm) vs))) jobId) = Some Running
        \<and> runIndexJob env has_jm jobId dir pid excl d jm vs
            = finish_job (e_now env) jobId
                (indexDirectory env has_jm dir pid excl d (Some jobId)
                   (mark_running (e_now env) jobId jm) vs)
        \<and> (case runIndexJob env has_jm jobId dir pid excl d jm vs of
              (r, jm', vs') \<Rightarrow>
                (\<exists>job'. getJob jm' jobId = Some job'
                   \<and> job_status job' = (case r of Inr res \<Rightarrow> Completed | Inl e \<Rightarrow> Failed)
                   \<and> job_endTime job' = Some (e_now env)
                   \<and> job_startTime job' = job_startTime job
                   \<and> (job_startTime job \<le> e_now env \<longrightarrow>
                        (\<exists>t. job_endTime job' = Some t \<and> job_startTime job' \<le> t))))"
    if g: "getJob jm jobId = Some job"
  proof -
    have 1: "getJob (mark_running (e_now env) jobId jm) jobId = Some (job\<lparr>job_status := Running\<rparr>)"
      using g by (simp add: getJob_mark_running)
    have 2: "map_option job_status
             (getJob (fst (snd (indexDirectory env has_jm dir pid excl d (Some jobId)
                                  (mark_running (e_now env) jobId jm) vs))) jobId) = Some Running"
      by (rule running_during_indexing[OF g])
    have 3: "runIndexJob env has_jm jobId dir pid excl d jm vs
            = finish_job (e_now env) jobId
                (indexDirectory env has_jm dir pid excl d (Some jobId)
                   (mark_running (e_now env) jobId jm) vs)"
      using g by (simp add: runIndexJob_def getJob_def)
    have 4: "case runIndexJob env has_jm jobId dir pid excl d jm vs of
              (r, jm', vs') \<Rightarrow>
                (\<exists>job'. getJob jm' jobId = Some job'
                   \<and> job_status job' = (case r of Inr res \<Rightarrow> Completed | Inl e \<Rightarrow> Failed)
                   \<and> job_endTime job' = Some (e_now env)
                   \<and> job_startTime job' = job_startTime job
                   \<and> (job_startTime job \<le> e_now env \<longrightarrow>
                        (\<exists>t. job_endTime job' = Some t \<and> job_startTime job' \<le> t)))"
      using runIndexJob_job[OF g, of env has_jm dir pid excl d vs]
      by (cases "runIndexJob env has_jm jobId dir pid excl d jm vs") auto
    from 1 2 3 4 show ?thesis by blast
  qed
  have c: "getJob jm jobId = Some job'"
    if "distinct (map fst (jm_jobs jm))"
      and "getJob (snd (cleanupOldJobs now maxAge jm)) jobId = Some job'" for job'
    using cleanup_getJob[OF that(1), of now maxAge jobId] that(2)
    by (auto split: option.splits if_splits)
  from a b c status_addJobLog[of now j msg lvl jm jobId] status_updateProgress[of now j p m jm jobId]
  show ?thesis by blast
qed

text \<open>
  An instance: the registry with one created job, started at time 0; the run
  over an empty directory at time 50 ends the job completed with end time 50.
\<close>

theorem job_lifecycle_witness:
  "getJob example_jm ''job_1_0'' = Some example_job
   \<and> job_startTime example_job \<le> e_now (example_env (Inr []) ''x'')
   \<and> distinct (map fst (jm_jobs example_jm))
   \<and> getJob (mark_running 50 ''job_1_0'' example_jm) ''job_1_0''
       = Some (example_job\<lparr>job_status := Running\<rparr>)
   \<and> (\<exists>job'. getJob (fst (snd (runIndexJob (example_env (Inr []) ''x'') True ''job_1_0'' ''/src''
                                  ''p'' [] False example_jm example_store))) ''job_1_0'' = Some job'
         \<and> job_status job' = Completed \<and> job_endTime job' = Some 50
         \<and> job_startTime job' \<le> 50)"
proof -
  have s: "job_startTime example_job \<le> e_now (example_env (Inr []) ''x'')"
    by (simp add: example_job_def example_env_def)
  have d: "distinct (map fst (jm_jobs example_jm))" by (simp add: example_jm_def)
  have n: "e_now (example_env (Inr []) ''x'') = 50" by (simp add: example_env_def)
  note T = job_lifecycle[of 0 "''index''" "''p''" "job_params example_job" new_JobManager
      example_jm "''job_1_0''" example_job "example_env (Inr []) ''x''" True "''/src''" "''p''"
      "[]" False example_store]
  note B = T[THEN conjunct2, THEN conjunct1, THEN mp, OF example_getJob]
  from B[THEN conjunct1] have m: "getJob (mark_running 50 ''job_1_0'' example_jm) ''job_1_0''
       = Some (example_job\<lparr>job_status := Running\<rparr>)"
    unfolding n .
  note B[THEN conjunct2, THEN conjunct2, THEN conjunct2]
  with example_run_empty s
  have r: "\<exists>job'. getJob (fst (snd (runIndexJob (example_env (Inr []) ''x'') True ''job_1_0'' ''/src''
                                  ''p'' [] False example_jm example_store))) ''job_1_0'' = Some job'
         \<and> job_status job' = Completed \<and> job_endTime job' = Some 50
         \<and> job_startTime job' \<le> 50"
    by (cases "runIndexJob (example_env (Inr []) ''x'') True ''job_1_0'' ''/src''
                                  ''p'' [] False example_jm example_store") (auto simp: n)
  from example_getJob s d m r show ?thesis by blast
qed

text \<open>
  Claim C5 as stated fails where it says that no exposed operation moves a job
  out of a terminal status and that running is never skipped: \<open>runIndexJob\<close>
  on a completed job, with a directory listing that fails, leaves the job
  failed; and \<open>updateJob\<close> takes a pending job to completed at once.
\<close>

theorem job_lifecycle_counterexample:
  "map_option job_status
     (getJob \<lparr>jm_jobs = [(''job_1_0'', example_job\<lparr>job_status := Completed, job_endTime := Some 10\<rparr>)],
              jm_jobId = 1\<rparr> ''job_1_0'') = Some Completed
   \<and> map_option job_status
       (getJob (fst (snd (runIndexJob (example_env (Inl ''ENOENT'') ''x'') True ''job_1_0'' ''/src''
                            ''p'' [] False
                            \<lparr>jm_jobs = [(''job_1_0'', example_job\<lparr>job_status := Completed,
                                                        job_endTime := Some 10\<rparr>)],
                             jm_jobId = 1\<rparr> example_store))) ''job_1_0'') = Some Failed
   \<and> map_option job_status (getJob example_jm ''job_1_0'') = Some Pending
   \<and> map_option job_status
       (getJob (snd (updateJob 5 ''job_1_0'' (no_updates\<lparr>u_status := Some Completed\<rparr>) example_jm))
          ''job_1_0'') = Some Completed"
proof -
  let ?job = "example_job\<lparr>job_status := Completed, job_endTime := Some 10\<rparr>"
  let ?jm = "\<lparr>jm_jobs = [(''job_1_0'', ?job)], jm_jobId = 1\<rparr>"
  let ?run = "runIndexJob (example_env (Inl ''ENOENT'') ''x'') True ''job_1_0'' ''/src''
                            ''p'' [] False ?jm example_store"
  have g: "getJob ?jm ''job_1_0'' = Some ?job" by (simp add: getJob_def)
  have 1: "map_option job_status (getJob ?jm ''job_1_0'') = Some Completed" unfolding g by simp
  have f: "fst ?run = Inl ''ENOENT''" by (rule example_run_fails[OF g])
  have 2: "map_option job_status (getJob (fst (snd ?run)) ''job_1_0'') = Some Failed"
    using runIndexJob_job[OF g, of "example_env (Inl ''ENOENT'') ''x''" True "''/src''" "''p''" "[]"
        False example_store] f
    by (cases ?run) auto
  have 3: "map_option job_status (getJob example_jm ''job_1_0'') = Some Pending"
    by (simp add: example_getJob example_job_def)
  have 4: "map_option job_status
       (getJob (snd (updateJob 5 ''job_1_0'' (no_updates\<lparr>u_status := Some Completed\<rparr>) example_jm))
          ''job_1_0'') = Some Completed"
    by (simp add: getJob_updateJob example_getJob assign_updates_def no_updates_def Let_def)
  from 1 2 3 4 show ?thesis by blast
qed

section \<open>Garbage collection of the registry\<close>









section \<open>The document store during a run\<close>

subsection \<open>One iteration of the loop\<close>

lemma embed_chunks_appends:
  assumes "embed_chunks env mk cs i docs = (err, docs')"
    and "\<And>i c emb. Q (mk i c emb)"
  shows "\<exists>new. docs' = docs @ new \<and> list_all Q new"
  using assms(1)
proof (induction cs arbitrary: i docs)
  case Nil
  then show ?case by simp
next
  case (Cons c cs)
  show ?case
  proof (cases "e_getEmbedding env (ch_content c)")
    case (Inl e)
    with Cons.prems show ?thesis by simp
  next
    case (Inr emb)
    with Cons.prems have "embed_chunks env mk cs (i + 1) (docs @ [mk i c emb]) = (err, docs')" by simp
    from Cons.IH[OF this] obtain new where "docs' = (docs @ [mk i c emb]) @ new" "list_all Q new" by blast
    then have "docs' = docs @ (mk i c emb # new) \<and> list_all Q (mk i c emb # new)"
      using assms(2) by simp
    then show ?thesis by blast
  qed
qed

lemma index_file_fields:
  "ls_vs (index_file env sink pid d t file content mtime hash st) = ls_vs st
   \<and> ls_skipped (index_file env sink pid d t file content mtime hash st) = ls_skipped st
   \<and> ls_updated (index_file env sink pid d t file content mtime hash st) = ls_updated st
   \<and> ls_added (index_file env sink pid d t file content mtime hash st) = ls_added st
   \<and> ls_currentFiles (index_file env sink pid d t file content mtime hash st) = ls_currentFiles st"
  by (simp add: index_file_def Let_def file_error_def split: prod.splits option.splits)

lemma index_file_documents:
  "\<exists>new. ls_documents (index_file env sink pid d t path content mtime hash st) = ls_documents st @ new
     \<and> list_all (\<lambda>x. nd_projectId x = pid \<and> nd_filePath x = path
                       \<and> md_contentHash (nd_metadata x) = hash) new"
proof -
  let ?mk = "mk_document pid path content mtime hash (length (chunkContent content path))"
  obtain err docs where
    e: "embed_chunks env ?mk (chunkContent content path) 0 (ls_documents st) = (err, docs)"
    by (cases "embed_chunks env ?mk (chunkContent content path) 0 (ls_documents st)") auto
  have "\<exists>new. docs = ls_documents st @ new
     \<and> list_all (\<lambda>x. nd_projectId x = pid \<and> nd_filePath x = path
                       \<and> md_contentHash (nd_metadata x) = hash) new"
    by (rule embed_chunks_appends[OF e]) (simp add: mk_document_def)
  moreover have "ls_documents (index_file env sink pid d t path content mtime hash st) = docs"
    using e by (simp add: index_file_def Let_def file_error_def split: option.splits)
  ultimately show ?thesis by simp
qed

lemma process_file_unchanged:
  assumes "isTextFile f" "e_stat env (path_join dir f) = Inr mtime"
    "e_readFile env (path_join dir f) = Inr content" "length content \<le> 1024 * 1024"
    "get_property ex f = JsRecord e" "unchanged e (e_md5 env content) (length content) mtime"
  shows "process_file env sink dir pid True ex t f st = (entered f st)\<lparr>ls_skipped := ls_skipped st + 1\<rparr>"
  using assms by (simp add: process_file_def Let_def entered_def is_unchanged_def)

lemma process_file_updated:
  assumes "isTextFile f" "e_stat env (path_join dir f) = Inr mtime"
    "e_readFile env (path_join dir f) = Inr content" "length content \<le> 1024 * 1024"
    "truthy (get_property ex f)"
    "\<not> is_unchanged (get_property ex f) (e_md5 env content) (length content) mtime"
    "e_removeFileChunks_error env pid f = None"
  shows "process_file env sink dir pid True ex t f st
     = index_file env sink pid True t f content mtime (e_md5 env content)
         ((entered f st)\<lparr>ls_vs := snd (removeFileChunks pid f (ls_vs st)),
                          ls_updated := ls_updated st + 1\<rparr>)"
  using assms by (simp add: process_file_def Let_def entered_def)

lemma process_file_added:
  assumes "isTextFile f" "e_stat env (path_join dir f) = Inr mtime"
    "e_readFile env (path_join dir f) = Inr content" "length content \<le> 1024 * 1024"
    "\<not> truthy (get_property ex f)"
  shows "process_file env sink dir pid True ex t f st
     = index_file env sink pid True t f content mtime (e_md5 env content)
         ((entered f st)\<lparr>ls_added := ls_added st + 1\<rparr>)"
  using assms by (simp add: process_file_def Let_def entered_def)

lemma chunks_of_remove:
  "chunks_of (snd (removeFileChunks pid g vs)) pid f = (if g = f then [] else chunks_of vs pid f)"
  by (auto simp: chunks_of_def removeFileChunks_def intro: filter_cong)

lemma docs_remove:
  "vs_documents (snd (removeFileChunks pid g vs))
     = filter (\<lambda>d. \<not> (doc_projectId d = pid \<and> doc_filePath d = g)) (vs_documents vs)"
  by (simp add: removeFileChunks_def)

subsection \<open>The loop\<close>

lemma file_error_fields:
  "ls_vs (file_error env sink file e st) = ls_vs st
   \<and> ls_documents (file_error env sink file e st) = ls_documents st
   \<and> ls_currentFiles (file_error env sink file e st) = ls_currentFiles st"
  by (simp add: file_error_def)

text \<open>What one iteration does to the visited set, the pending batch and the store.\<close>

lemma process_file_effect:
  "set (ls_currentFiles (process_file env sink dir pid d ex t g st)) = insert g (set (ls_currentFiles st))
       \<and> (\<exists>new. ls_documents (process_file env sink dir pid d ex t g st) = ls_documents st @ new
              \<and> list_all (\<lambda>x. nd_projectId x = pid \<and> nd_filePath x = g) new)
       \<and> ls_vs (process_file env sink dir pid d ex t g st) \<in> {ls_vs st, snd (removeFileChunks pid g (ls_vs st))}"
proof (cases "isTextFile g")
  case False
  then show ?thesis by (simp add: process_file_not_text)
next
  case True
  from process_file_shape[OF True, of env sink dir pid d ex t st]
  show ?thesis
  proof (elim disjE exE conjE)
    fix e
    assume "process_file env sink dir pid d ex t g st = file_error env sink g e (entered g st)"
    then show ?thesis by (simp add: file_error_fields entered_def)
  next
    fix msg lvl
    assume "process_file env sink dir pid d ex t g st
              = (entered g st)\<lparr>ls_jm := logMethod (e_now env) sink msg lvl (ls_jm st)\<rparr>"
    then show ?thesis by (simp add: entered_def)
  next
    assume "process_file env sink dir pid d ex t g st = (entered g st)\<lparr>ls_skipped := ls_skipped st + 1\<rparr>"
    then show ?thesis by (simp add: entered_def)
  next
    fix content mtime hash s
    assume r: "process_file env sink dir pid d ex t g st = index_file env sink pid d t g content mtime hash s"
      and s: "ls_documents s = ls_documents st" "ls_currentFiles s = List.insert g (ls_currentFiles st)"
        "ls_vs s \<in> {ls_vs st, snd (removeFileChunks pid g (ls_vs st))}"
    from index_file_documents[of env sink pid d t g content mtime hash s]
    obtain new where n: "ls_documents (index_file env sink pid d t g content mtime hash s) = ls_documents s @ new"
      "list_all (\<lambda>x. nd_projectId x = pid \<and> nd_filePath x = g \<and> md_contentHash (nd_metadata x) = hash) new"
      by blast
    from n(2) have "list_all (\<lambda>x. nd_projectId x = pid \<and> nd_filePath x = g) new"
      by (simp add: list_all_iff)
    with n(1) r s index_file_fields[of env sink pid d t g content mtime hash s]
    show ?thesis by simp
  qed
qed

lemma process_files_Cons:
  "process_files env sink dir pid d ex t (g # gs) st
     = process_files env sink dir pid d ex t gs (process_file env sink dir pid d ex t g st)"
  by (simp add: process_files_def)

lemma process_files_Nil: "process_files env sink dir pid d ex t [] st = st"
  by (simp add: process_files_def)

lemma process_files_currentFiles:
  "set (ls_currentFiles (process_files env sink dir pid d ex t files st))
     = set (ls_currentFiles st) \<union> set files"
proof (induction files arbitrary: st)
  case Nil
  then show ?case by (simp add: process_files_Nil)
next
  case (Cons g gs)
  show ?case
    using process_file_effect[of env sink dir pid d ex t g st]
    by (simp add: process_files_Cons Cons.IH)
qed

lemma process_files_documents:
  "\<exists>new. ls_documents (process_files env sink dir pid d ex t files st) = ls_documents st @ new
      \<and> list_all (\<lambda>x. nd_projectId x = pid \<and> nd_filePath x \<in> set files) new"
proof (induction files arbitrary: st)
  case Nil
  then show ?case by (simp add: process_files_Nil)
next
  case (Cons g gs)
  let ?s = "process_file env sink dir pid d ex t g st"
  from process_file_effect[of env sink dir pid d ex t g st]
  obtain n1 where n1: "ls_documents ?s = ls_documents st @ n1"
    "list_all (\<lambda>x. nd_projectId x = pid \<and> nd_filePath x = g) n1" by blast
  from Cons.IH[of ?s]
  obtain n2 where n2: "ls_documents (process_files env sink dir pid d ex t gs ?s) = ls_documents ?s @ n2"
    "list_all (\<lambda>x. nd_projectId x = pid \<and> nd_filePath x \<in> set gs) n2" by blast
  have "ls_documents (process_files env sink dir pid d ex t (g # gs) st) = ls_documents st @ (n1 @ n2)"
    using n1 n2 by (simp add: process_files_Cons)
  moreover have "list_all (\<lambda>x. nd_projectId x = pid \<and> nd_filePath x \<in> set (g # gs)) (n1 @ n2)"
    using n1(2) n2(2) by (auto simp: list_all_iff)
  ultimately show ?case by blast
qed

text \<open>The loop only removes chunks from the store, and only of files it visits.\<close>

lemma process_files_store:
  "vs_next_id (ls_vs (process_files env sink dir pid d ex t files st)) = vs_next_id (ls_vs st)
   \<and> vs_projects (ls_vs (process_files env sink dir pid d ex t files st)) = vs_projects (ls_vs st)
   \<and> (\<forall>f. chunks_of (ls_vs (process_files env sink dir pid d ex t files st)) pid f = []
          \<or> chunks_of (ls_vs (process_files env sink dir pid d ex t files st)) pid f
               = chunks_of (ls_vs st) pid f)
   \<and> (\<forall>f. f \<notin> set files \<longrightarrow>
          chunks_of (ls_vs (process_files env sink dir pid d ex t files st)) pid f
               = chunks_of (ls_vs st) pid f)"
proof (induction files arbitrary: st)
  case Nil
  then show ?case by (simp add: process_files_Nil)
next
  case (Cons g gs)
  let ?s = "process_file env sink dir pid d ex t g st"
  from process_file_effect[of env sink dir pid d ex t g st]
  have v: "ls_vs ?s = ls_vs st \<or> ls_vs ?s = snd (removeFileChunks pid g (ls_vs st))" by blast
  then have a: "vs_next_id (ls_vs ?s) = vs_next_id (ls_vs st)"
    "vs_projects (ls_vs ?s) = vs_projects (ls_vs st)"
    by (auto simp: removeFileChunks_def)
  from v have b: "chunks_of (ls_vs ?s) pid f = [] \<or> chunks_of (ls_vs ?s) pid f = chunks_of (ls_vs st) pid f" for f
    by (auto simp: chunks_of_remove)
  from v have c: "f \<noteq> g \<Longrightarrow> chunks_of (ls_vs ?s) pid f = chunks_of (ls_vs st) pid f" for f
    by (auto simp: chunks_of_remove)
  note IH = Cons.IH[of ?s]
  show ?case
    unfolding process_files_Cons
    using IH a b c by (metis list.set_intros(1) list.set_intros(2) set_ConsD)
qed

text \<open>A file that is classified unchanged: its chunks stay, none is queued.\<close>

lemma process_files_unchanged:
  assumes "isTextFile f" "e_stat env (path_join dir f) = Inr mtime"
    "e_readFile env (path_join dir f) = Inr content" "length content \<le> 1024 * 1024"
    "get_property ex f = JsRecord e" "unchanged e (e_md5 env content) (length content) mtime"
    and "list_all (\<lambda>x. nd_filePath x \<noteq> f) (ls_documents st)"
  shows "chunks_of (ls_vs (process_files env sink dir pid True ex t files st)) pid f
           = chunks_of (ls_vs st) pid f
       \<and> list_all (\<lambda>x. nd_filePath x \<noteq> f) (ls_documents (process_files env sink dir pid True ex t files st))"
  using assms(7)
proof (induction files arbitrary: st)
  case Nil
  then show ?case by (simp add: process_files_Nil)
next
  case (Cons g gs)
  let ?s = "process_file env sink dir pid True ex t g st"
  have "chunks_of (ls_vs ?s) pid f = chunks_of (ls_vs st) pid f
        \<and> list_all (\<lambda>x. nd_filePath x \<noteq> f) (ls_documents ?s)"
  proof (cases "g = f")
    case True
    then show ?thesis
      using process_file_unchanged[OF assms(1-6), of sink pid t st] Cons.prems
      by (simp add: entered_def)
  next
    case False
    from process_file_effect[of env sink dir pid True ex t g st]
    obtain new where n: "ls_documents ?s = ls_documents st @ new"
        "list_all (\<lambda>x. nd_projectId x = pid \<and> nd_filePath x = g) new"
      and v: "ls_vs ?s = ls_vs st \<or> ls_vs ?s = snd (removeFileChunks pid g (ls_vs st))"
      by blast
    from v False have "chunks_of (ls_vs ?s) pid f = chunks_of (ls_vs st) pid f"
      by (auto simp: chunks_of_remove)
    moreover from n False Cons.prems have "list_all (\<lambda>x. nd_filePath x \<noteq> f) (ls_documents ?s)"
      by (auto simp: list_all_iff)
    ultimately show ?thesis by simp
  qed
  with Cons.IH[of ?s] show ?case by (simp add: process_files_Cons)
qed

text \<open>A file that is classified updated: once visited, none of its old chunks is left.\<close>

lemma process_files_updated:
  assumes "isTextFile f" "e_stat env (path_join dir f) = Inr mtime"
    "e_readFile env (path_join dir f) = Inr content" "length content \<le> 1024 * 1024"
    "truthy (get_property ex f)"
    "\<not> is_unchanged (get_property ex f) (e_md5 env content) (length content) mtime"
    "e_removeFileChunks_error env pid f = None"
    and "f \<in> set files"
  shows "chunks_of (ls_vs (process_files env sink dir pid True ex t files st)) pid f = []"
  using assms(8)
proof (induction files arbitrary: st)
  case Nil
  then show ?case by simp
next
  case (Cons g gs)
  let ?s = "process_file env sink dir pid True ex t g st"
  show ?case
  proof (cases "g = f")
    case True
    have "chunks_of (ls_vs ?s) pid f = []"
      unfolding True process_file_updated[OF assms(1-7)]
      using index_file_fields[of env sink pid True t f content mtime "e_md5 env content"]
      by (simp add: chunks_of_remove entered_def)
    moreover from process_files_store[of env sink dir pid True ex t gs ?s]
    have "chunks_of (ls_vs (process_files env sink dir pid True ex t gs ?s)) pid f = []
          \<or> chunks_of (ls_vs (process_files env sink dir pid True ex t gs ?s)) pid f
               = chunks_of (ls_vs ?s) pid f" by blast
    ultimately show ?thesis by (auto simp: process_files_Cons)
  next
    case False
    with Cons.prems have "f \<in> set gs" by simp
    from Cons.IH[OF this, of ?s] show ?thesis by (simp add: process_files_Cons)
  qed
qed

lemma process_files_batch_hash:
  assumes "e_readFile env (path_join dir f) = Inr content"
    and "list_all (\<lambda>x. nd_filePath x = f \<longrightarrow> md_contentHash (nd_metadata x) = e_md5 env content)
           (ls_documents st)"
  shows "list_all (\<lambda>x. nd_filePath x = f \<longrightarrow> md_contentHash (nd_metadata x) = e_md5 env content)
           (ls_documents (process_files env sink dir pid d ex t files st))"
  using assms(2)
proof (induction files arbitrary: st)
  case Nil
  then show ?case by (simp add: process_files_Nil)
next
  case (Cons g gs)
  let ?s = "process_file env sink dir pid d ex t g st"
  let ?Q = "\<lambda>x. nd_filePath x = f \<longrightarrow> md_contentHash (nd_metadata x) = e_md5 env content"
  have "list_all ?Q (ls_documents ?s)"
  proof (cases "isTextFile g")
    case False
    with Cons.prems show ?thesis by (simp add: process_file_not_text)
  next
    case True
    from process_file_shape[OF True, of env sink dir pid d ex t st]
    show ?thesis
    proof (elim disjE exE conjE)
      fix e
      assume "?s = file_error env sink g e (entered g st)"
      then show ?thesis using Cons.prems by (simp add: file_error_fields entered_def)
    next
      fix msg lvl
      assume "?s = (entered g st)\<lparr>ls_jm := logMethod (e_now env) sink msg lvl (ls_jm st)\<rparr>"
      then show ?thesis using Cons.prems by (simp add: entered_def)
    next
      assume "?s = (entered g st)\<lparr>ls_skipped := ls_skipped st + 1\<rparr>"
      then show ?thesis using Cons.prems by (simp add: entered_def)
    next
      fix c mtime hash s
      assume r: "?s = index_file env sink pid d t g c mtime hash s"
        and s: "ls_documents s = ls_documents st"
        and rd: "e_readFile env (path_join dir g) = Inr c" and h: "hash = e_md5 env c"
      have gh: "g = f \<longrightarrow> hash = e_md5 env content"
        using rd h assms(1) by auto
      from index_file_documents[of env sink pid d t g c mtime hash s]
      obtain new where n: "ls_documents (index_file env sink pid d t g c mtime hash s) = ls_documents s @ new"
        "list_all (\<lambda>x. nd_projectId x = pid \<and> nd_filePath x = g \<and> md_contentHash (nd_metadata x) = hash) new"
        by blast
      from n(2) gh have "list_all ?Q new" by (auto simp: list_all_iff)
      with n(1) r s Cons.prems show ?thesis by simp
    qed
  qed
  with Cons.IH[of ?s] show ?case by (simp add: process_files_Cons)
qed

subsection \<open>Deletions and the last phase\<close>

lemma remove_deleted_effect:
  assumes "remove_deleted env pid fs vs n = (err, vs1, n1)"
  shows "vs_next_id vs1 = vs_next_id vs
       \<and> (\<forall>f. chunks_of vs1 pid f = [] \<or> chunks_of vs1 pid f = chunks_of vs pid f)
       \<and> (\<forall>f. f \<notin> set fs \<longrightarrow> chunks_of vs1 pid f = chunks_of vs pid f)
       \<and> (err = None \<longrightarrow> n1 = n + length fs \<and> (\<forall>f \<in> set fs. chunks_of vs1 pid f = []))"
  using assms
proof (induction fs arbitrary: vs n)
  case Nil
  then show ?case by simp
next
  case (Cons g gs)
  show ?case
  proof (cases "e_removeFileChunks_error env pid g")
    case (Some e)
    with Cons.prems have "err = Some e" "vs1 = vs" "n1 = n" by simp_all
    then show ?thesis by simp
  next
    case None
    let ?v = "snd (removeFileChunks pid g vs)"
    from None Cons.prems have r: "remove_deleted env pid gs ?v (n + 1) = (err, vs1, n1)" by simp
    note IH = Cons.IH[OF r]
    have a: "vs_next_id ?v = vs_next_id vs" by (simp add: removeFileChunks_def)
    have b: "chunks_of ?v pid f = (if g = f then [] else chunks_of vs pid f)" for f
      by (rule chunks_of_remove)
    from IH a have 1: "vs_next_id vs1 = vs_next_id vs" by simp
    have 2: "chunks_of vs1 pid f = [] \<or> chunks_of vs1 pid f = chunks_of vs pid f" for f
      using IH b[of f] by (metis (full_types))
    have 3: "chunks_of vs1 pid f = chunks_of vs pid f" if "f \<notin> set (g # gs)" for f
      using IH b[of f] that by auto
    have 4: "n1 = n + length (g # gs) \<and> (\<forall>f \<in> set (g # gs). chunks_of vs1 pid f = [])" if "err = None"
    proof -
      from IH that have n: "n1 = n + 1 + length gs" and e: "\<forall>f \<in> set gs. chunks_of vs1 pid f = []"
        by simp_all
      from IH b[of g] have "chunks_of vs1 pid g = []" by (metis (full_types))
      with n e show ?thesis by simp
    qed
    from 1 2 3 4 show ?thesis by blast
  qed
qed

lemma delete_phase_effect:
  fixes st :: loop_state
  defines "deletedFiles \<equiv> (\<lambda>ex. filter (\<lambda>f. f \<notin> set (ls_currentFiles st)) (object_keys ex))"
  shows "(delete_phase env sink pid d ex st = Inr (n, st1) \<longrightarrow>
            ls_documents st1 = ls_documents st \<and> ls_processed st1 = ls_processed st
            \<and> ls_skipped st1 = ls_skipped st \<and> ls_updated st1 = ls_updated st
            \<and> ls_added st1 = ls_added st
            \<and> vs_next_id (ls_vs st1) = vs_next_id (ls_vs st)
            \<and> (\<forall>f. chunks_of (ls_vs st1) pid f = [] \<or> chunks_of (ls_vs st1) pid f = chunks_of (ls_vs st) pid f)
            \<and> (\<forall>f. f \<in> set (ls_currentFiles st) \<longrightarrow> chunks_of (ls_vs st1) pid f = chunks_of (ls_vs st) pid f)
            \<and> (d \<longrightarrow> n = length (deletedFiles ex)
                  \<and> (\<forall>f \<in> set (deletedFiles ex). chunks_of (ls_vs st1) pid f = [])))
       \<and> (delete_phase env sink pid d ex st = Inl (e, st1) \<longrightarrow>
            (\<forall>f. f \<in> set (ls_currentFiles st) \<longrightarrow> chunks_of (ls_vs st1) pid f = chunks_of (ls_vs st) pid f))"
proof (cases d)
  case False
  then show ?thesis by (auto simp: delete_phase_def)
next
  case True
  obtain err vs1 n1 where
    r: "remove_deleted env pid (deletedFiles ex) (ls_vs st) 0 = (err, vs1, n1)"
    by (metis prod_cases3)
  note E = remove_deleted_effect[OF r]
  have k: "f \<in> set (ls_currentFiles st) \<Longrightarrow> f \<notin> set (deletedFiles ex)" for f
    by (simp add: deletedFiles_def)
  show ?thesis
  proof (cases err)
    case None
    with True r have "delete_phase env sink pid d ex st
        = Inr (n1, st\<lparr>ls_jm := (if n1 > 0
                               then logMethod (e_now env) sink
                                      (''Removed '' @ show_nat n1 @ '' deleted files from index'')
                                      ''info'' (reportProgress (e_now env) sink 87 ''Checking for deleted files...'' (ls_jm st))
                               else reportProgress (e_now env) sink 87 ''Checking for deleted files...'' (ls_jm st)),
                     ls_vs := vs1\<rparr>)"
      by (simp add: delete_phase_def Let_def deletedFiles_def)
    with E None True k show ?thesis by auto
  next
    case (Some x)
    with True r have "delete_phase env sink pid d ex st
        = Inl (x, st\<lparr>ls_jm := reportProgress (e_now env) sink 87 ''Checking for deleted files...'' (ls_jm st),
                     ls_vs := vs1\<rparr>)"
      by (simp add: delete_phase_def Let_def deletedFiles_def)
    with E k show ?thesis by auto
  qed
qed

lemma to_insert_props:
  "x \<in> set (to_insert now n docs) \<Longrightarrow>
     n \<le> doc_id x \<and> (\<exists>y \<in> set docs. doc_projectId x = nd_projectId y \<and> doc_filePath x = nd_filePath y
                           \<and> doc_metadata x = nd_metadata y)"
proof (induction docs arbitrary: n)
  case Nil
  then show ?case by simp
next
  case (Cons y ys)
  from Cons.prems show ?case
  proof (simp, elim disjE)
    assume "x \<in> set (to_insert now (Suc n) ys)"
    from Cons.IH[of "n + 1"] this show "n \<le> doc_id x \<and>
       (doc_projectId x = nd_projectId y \<and> doc_filePath x = nd_filePath y \<and> doc_metadata x = nd_metadata y
        \<or> (\<exists>y \<in> set ys. doc_projectId x = nd_projectId y \<and> doc_filePath x = nd_filePath y
               \<and> doc_metadata x = nd_metadata y))"
      by auto
  qed auto
qed

text \<open>The store after the last phase: the store before it, then inserted documents.\<close>

lemma save_phase_store:
  assumes "save_phase env sink dir pid excl d t n st = (r, jm', vs')"
  shows "\<exists>ins. vs_documents vs' = vs_documents (ls_vs st) @ ins
           \<and> set ins \<subseteq> set (to_insert (e_now env) (vs_next_id (ls_vs st)) (ls_documents st))
           \<and> (\<forall>res. r = Inr res \<longrightarrow>
                 ins = to_insert (e_now env) (vs_next_id (ls_vs st)) (ls_documents st)
                 \<and> res_deltaStats res =
                      (if d then Some \<lparr>ds_skipped = ls_skipped st, ds_updated = ls_updated st,
                                        ds_added = ls_added st, ds_deleted = n, ds_total = t\<rparr>
                       else None)
                 \<and> res_filesProcessed res = ls_processed st
                 \<and> res_chunksIndexed res = length (ls_documents st))"
proof (cases "ls_documents st = []")
  case True
  with assms show ?thesis
    by (auto simp: save_phase_def Let_def index_failed_def saveProjectMetadata_def
        split: option.splits)
next
  case False
  with assms show ?thesis
    by (auto simp: save_phase_def Let_def index_failed_def saveProjectMetadata_def addDocuments_def
        split: option.splits)
qed

subsection \<open>Whole runs\<close>

text \<open>
  The run after a directory listing that succeeded and, in delta mode, a
  snapshot that was loaded: the loop, the deletions, the last phase.
\<close>

lemma indexDirectory_run:
  assumes glob: "e_glob env dir (defaultExcludes @ excl) = Inr files"
    and ld: "d \<longrightarrow> e_getExistingFiles_error env pid = None"
  shows "\<exists>jm7. case delete_phase env (job_sink has_jm jobId) pid d
                      (if d then getExistingFiles vs pid else empty_object)
                      (process_files env (job_sink has_jm jobId) dir pid d
                         (if d then getExistingFiles vs pid else empty_object)
                         (length (filter isTextFile files)) files (init_loop_state jm7 vs)) of
                 Inl (e, st1) \<Rightarrow>
                   fst (indexDirectory env has_jm dir pid excl d jobId jm vs) = Inl e
                   \<and> snd (snd (indexDirectory env has_jm dir pid excl d jobId jm vs)) = ls_vs st1
               | Inr (n, st1) \<Rightarrow>
                   indexDirectory env has_jm dir pid excl d jobId jm vs
                     = save_phase env (job_sink has_jm jobId) dir pid excl d
                         (length (filter isTextFile files)) n st1"
proof -
  let ?now = "e_now env"
  let ?sink = "job_sink has_jm jobId"
  let ?t = "length (filter isTextFile files)"
  let ?ex = "if d then getExistingFiles vs pid else empty_object"
  let ?jm6 = "reportProgress ?now ?sink 10 (''Found '' @ show_nat ?t @ '' files to process'')
       (logMethod ?now ?sink
                          (''Found '' @ show_nat (length files) @ '' files, ''
                           @ show_nat ?t @ '' text files to ''
                           @ (if d then ''check for changes'' else ''index'')) ''info''
         (reportProgress ?now ?sink 5 ''Scanning directory...''
           (logMethod ?now ?sink (''Excluding: '' @ join_with '', '' (defaultExcludes @ excl)) ''info''
              (logMethod ?now ?sink (''Directory: '' @ dir) ''info''
                 (logMethod ?now ?sink
                    (''Starting '' @ (if d then ''delta '' else []) @ ''indexing for project: '' @ pid)
                    ''info'' jm)))))"
  obtain jm7 where le: "load_existing env ?sink pid d ?jm6 vs = Inr (?ex, jm7)"
    using ld by (cases d) (auto simp: load_existing_def Let_def)
  let ?st = "process_files env ?sink dir pid d ?ex ?t files (init_loop_state jm7 vs)"
  have "case delete_phase env ?sink pid d ?ex ?st of
                 Inl (e, st1) \<Rightarrow>
                   fst (indexDirectory env has_jm dir pid excl d jobId jm vs) = Inl e
                   \<and> snd (snd (indexDirectory env has_jm dir pid excl d jobId jm vs)) = ls_vs st1
               | Inr (n, st1) \<Rightarrow>
                   indexDirectory env has_jm dir pid excl d jobId jm vs
                     = save_phase env ?sink dir pid excl d ?t n st1"
  proof (cases "delete_phase env ?sink pid d ?ex ?st")
    case (Inl est)
    obtain e st1 where est: "est = (e, st1)" by (cases est)
    from glob le Inl est show ?thesis
      by (simp add: indexDirectory_def Let_def index_failed_def)
  next
    case (Inr nst)
    obtain n st1 where nst: "nst = (n, st1)" by (cases nst)
    from glob le Inr nst show ?thesis
      by (simp add: indexDirectory_def Let_def)
  qed
  then show ?thesis by blast
qed

lemma indexDirectory_snapshot_fails:
  assumes "e_glob env dir (defaultExcludes @ excl) = Inr files"
    and "e_getExistingFiles_error env pid = Some e"
  shows "fst (indexDirectory env has_jm dir pid excl True jobId jm vs) = Inl e
       \<and> snd (snd (indexDirectory env has_jm dir pid excl True jobId jm vs)) = vs"
  using assms by (simp add: indexDirectory_def Let_def index_failed_def load_existing_def)

lemma init_loop_state_fields [simp]:
  "ls_vs (init_loop_state jm vs) = vs" "ls_documents (init_loop_state jm vs) = []"
  "ls_currentFiles (init_loop_state jm vs) = []" "ls_jm (init_loop_state jm vs) = jm"
  by (simp_all add: init_loop_state_def)

lemma chunks_of_append:
  "vs_documents vs' = vs_documents vs @ ins \<Longrightarrow>
     chunks_of vs' pid f = chunks_of vs pid f
        @ filter (\<lambda>x. doc_projectId x = pid \<and> doc_filePath x = f) ins"
  by (simp add: chunks_of_def)

lemma run_unchanged:
  assumes c: "isTextFile f" "e_stat env (path_join dir f) = Inr mtime"
    "e_readFile env (path_join dir f) = Inr content" "length content \<le> 1024 * 1024"
    and glob: "e_glob env dir (defaultExcludes @ excl) = Inr files" and f: "f \<in> set files"
    and ex: "get_property (getExistingFiles vs pid) f = JsRecord e"
    and un: "unchanged e (e_md5 env content) (length content) mtime"
  shows "chunks_of (snd (snd (indexDirectory env has_jm dir pid excl True jobId jm vs))) pid f
           = chunks_of vs pid f"
proof (cases "e_getExistingFiles_error env pid")
  case (Some x)
  from indexDirectory_snapshot_fails[OF glob Some] show ?thesis by simp
next
  case None
  let ?R = "indexDirectory env has_jm dir pid excl True jobId jm vs"
  let ?sink = "job_sink has_jm jobId"
  let ?ex = "getExistingFiles vs pid"
  let ?t = "length (filter isTextFile files)"
  from indexDirectory_run[OF glob, where d=True and pid=pid and has_jm=has_jm and jobId=jobId and vs=vs and jm=jm] None
  obtain jm7 where run: "case delete_phase env ?sink pid True ?ex
                      (process_files env ?sink dir pid True ?ex ?t files (init_loop_state jm7 vs)) of
                 Inl (e, st1) \<Rightarrow> fst ?R = Inl e \<and> snd (snd ?R) = ls_vs st1
               | Inr (n, st1) \<Rightarrow> ?R = save_phase env ?sink dir pid excl True ?t n st1"
    by auto
  let ?st = "process_files env ?sink dir pid True ?ex ?t files (init_loop_state jm7 vs)"
  from process_files_unchanged[OF c ex un, where st="init_loop_state jm7 vs" and sink="?sink" and pid=pid and t="?t" and files=files]
  have k: "chunks_of (ls_vs ?st) pid f = chunks_of vs pid f"
    "list_all (\<lambda>x. nd_filePath x \<noteq> f) (ls_documents ?st)"
    by simp_all
  have cf: "f \<in> set (ls_currentFiles ?st)"
    using f by (simp add: process_files_currentFiles)
  show ?thesis
  proof (cases "delete_phase env ?sink pid True ?ex ?st")
    case (Inl est)
    obtain e1 st1 where est: "est = (e1, st1)" by (cases est)
    from run Inl est have "snd (snd ?R) = ls_vs st1" by simp
    moreover from delete_phase_effect[where env=env and sink="?sink" and pid=pid and d=True and ex="?ex" and st="?st" and e=e1 and ?st1.0=st1] Inl est cf
    have "chunks_of (ls_vs st1) pid f = chunks_of (ls_vs ?st) pid f" by simp
    ultimately show ?thesis using k by simp
  next
    case (Inr nst)
    obtain n st1 where nst: "nst = (n, st1)" by (cases nst)
    from run Inr nst have R: "?R = save_phase env ?sink dir pid excl True ?t n st1" by simp
    from delete_phase_effect[where env=env and sink="?sink" and pid=pid and d=True and ex="?ex" and st="?st" and n=n and ?st1.0=st1] Inr nst cf
    have d1: "chunks_of (ls_vs st1) pid f = chunks_of (ls_vs ?st) pid f"
      "ls_documents st1 = ls_documents ?st" by simp_all
    obtain r jm' vs' where sp: "save_phase env ?sink dir pid excl True ?t n st1 = (r, jm', vs')"
      by (metis prod_cases3)
    from save_phase_store[OF sp] obtain ins where
      ins: "vs_documents vs' = vs_documents (ls_vs st1) @ ins"
        "set ins \<subseteq> set (to_insert (e_now env) (vs_next_id (ls_vs st1)) (ls_documents st1))"
      by blast
    have "filter (\<lambda>x. doc_projectId x = pid \<and> doc_filePath x = f) ins = []"
    proof -
      have "doc_filePath x \<noteq> f" if "x \<in> set ins" for x
      proof -
        from that ins(2) to_insert_props[where x=x and now="e_now env" and n="vs_next_id (ls_vs st1)" and docs="ls_documents st1"]
        obtain y where "y \<in> set (ls_documents st1)" "doc_filePath x = nd_filePath y" by blast
        with k(2) d1(2) show ?thesis by (simp add: list_all_iff)
      qed
      then show ?thesis by (simp add: filter_empty_conv)
    qed
    with chunks_of_append[OF ins(1), where pid=pid and f=f] have "chunks_of vs' pid f = chunks_of (ls_vs st1) pid f"
      by simp
    with R sp d1 k show ?thesis by simp
  qed
qed

lemma run_updated:
  assumes c: "isTextFile f" "e_stat env (path_join dir f) = Inr mtime"
    "e_readFile env (path_join dir f) = Inr content" "length content \<le> 1024 * 1024"
    and glob: "e_glob env dir (defaultExcludes @ excl) = Inr files" and f: "f \<in> set files"
    and ex: "truthy (get_property (getExistingFiles vs pid) f)"
    and ch: "\<not> is_unchanged (get_property (getExistingFiles vs pid) f) (e_md5 env content)
               (length content) mtime"
    and rm: "e_removeFileChunks_error env pid f = None"
    and ok: "fst (indexDirectory env has_jm dir pid excl True jobId jm vs) = Inr res"
    and x: "x \<in> set (chunks_of (snd (snd (indexDirectory env has_jm dir pid excl True jobId jm vs))) pid f)"
  shows "vs_next_id vs \<le> doc_id x \<and> md_contentHash (doc_metadata x) = e_md5 env content"
proof -
  let ?R = "indexDirectory env has_jm dir pid excl True jobId jm vs"
  let ?sink = "job_sink has_jm jobId"
  let ?ex = "getExistingFiles vs pid"
  let ?t = "length (filter isTextFile files)"
  have None: "e_getExistingFiles_error env pid = None"
  proof (cases "e_getExistingFiles_error env pid")
    case (Some y)
    from indexDirectory_snapshot_fails[OF glob Some, where has_jm=has_jm and jobId=jobId and jm=jm and vs=vs] ok show ?thesis by simp
  qed simp
  from indexDirectory_run[OF glob, where d=True and pid=pid and has_jm=has_jm and jobId=jobId and vs=vs and jm=jm] None
  obtain jm7 where run: "case delete_phase env ?sink pid True ?ex
                      (process_files env ?sink dir pid True ?ex ?t files (init_loop_state jm7 vs)) of
                 Inl (e, st1) \<Rightarrow> fst ?R = Inl e \<and> snd (snd ?R) = ls_vs st1
               | Inr (n, st1) \<Rightarrow> ?R = save_phase env ?sink dir pid excl True ?t n st1"
    by auto
  let ?st = "process_files env ?sink dir pid True ?ex ?t files (init_loop_state jm7 vs)"
  have k: "chunks_of (ls_vs ?st) pid f = []"
    by (rule process_files_updated[OF c ex ch rm f])
  from process_files_store[where env=env and sink="?sink" and dir=dir and pid=pid and d=True and ex="?ex" and t="?t" and files=files and st="init_loop_state jm7 vs"]
  have nid: "vs_next_id (ls_vs ?st) = vs_next_id vs" by simp
  have bh: "list_all (\<lambda>x. nd_filePath x = f \<longrightarrow> md_contentHash (nd_metadata x) = e_md5 env content)
           (ls_documents ?st)"
    by (rule process_files_batch_hash[OF c(3)]) simp
  show ?thesis
  proof (cases "delete_phase env ?sink pid True ?ex ?st")
    case (Inl est)
    obtain e1 st1 where est: "est = (e1, st1)" by (cases est)
    from run Inl est ok show ?thesis by simp
  next
    case (Inr nst)
    obtain n st1 where nst: "nst = (n, st1)" by (cases nst)
    from run Inr nst have R: "?R = save_phase env ?sink dir pid excl True ?t n st1" by simp
    from delete_phase_effect[where env=env and sink="?sink" and pid=pid and d=True and ex="?ex" and st="?st" and n=n and ?st1.0=st1] Inr nst
    have d1: "chunks_of (ls_vs st1) pid f = [] \<or> chunks_of (ls_vs st1) pid f = chunks_of (ls_vs ?st) pid f"
      "ls_documents st1 = ls_documents ?st" "vs_next_id (ls_vs st1) = vs_next_id (ls_vs ?st)"
      by simp_all
    with k have k1: "chunks_of (ls_vs st1) pid f = []" by auto
    obtain r jm' vs' where sp: "save_phase env ?sink dir pid excl True ?t n st1 = (r, jm', vs')"
      by (metis prod_cases3)
    from save_phase_store[OF sp] obtain ins where
      ins: "vs_documents vs' = vs_documents (ls_vs st1) @ ins"
        "set ins \<subseteq> set (to_insert (e_now env) (vs_next_id (ls_vs st1)) (ls_documents st1))"
      by blast
    from chunks_of_append[OF ins(1), where pid=pid and f=f] k1
    have "chunks_of vs' pid f = filter (\<lambda>x. doc_projectId x = pid \<and> doc_filePath x = f) ins" by simp
    with x R sp have xi: "x \<in> set ins" "doc_filePath x = f" by simp_all
    from xi(1) ins(2) to_insert_props[where x=x and now="e_now env" and n="vs_next_id (ls_vs st1)" and docs="ls_documents st1"]
    obtain y where y: "vs_next_id (ls_vs st1) \<le> doc_id x" "y \<in> set (ls_documents st1)"
      "doc_filePath x = nd_filePath y" "doc_metadata x = nd_metadata y" by blast
    from y(2,3) xi(2) bh d1(2) have "md_contentHash (nd_metadata y) = e_md5 env content"
      by (simp add: list_all_iff)
    with y d1(3) nid show ?thesis by simp
  qed
qed

subsection \<open>The snapshot object\<close>

lemma fst_filter_neq:
  "fst ` set (filter (\<lambda>(p, i). p \<noteq> k) xs) = fst ` set xs - {k}"
  by (induction xs) auto

lemma group_first_keys: "fst ` set (group_first ds) = doc_filePath ` set ds"
  by (induction ds) (auto simp: fst_filter_neq simp del: set_filter)

lemma group_first_distinct: "distinct (map fst (group_first ds))"
proof (induction ds)
  case Nil
  then show ?case by simp
next
  case (Cons d ds)
  have "map fst (filter (\<lambda>(p, i). p \<noteq> k) xs) = filter (\<lambda>p. p \<noteq> k) (map fst xs)" for k and xs :: "(string \<times> file_info) list"
    by (induction xs) auto
  with Cons show ?case by simp
qed


lemma update_fresh:
  "k \<notin> fst ` set xs \<Longrightarrow> AList.update k v xs = xs @ [(k, v)]"
  by (induction xs) auto

lemma assign_rows:
  assumes "distinct (map fst rows)" "fst ` set rows \<inter> fst ` set (obj_own obj) = {}"
  shows "foldl (\<lambda>fileMap (path, info). assign_property path info fileMap) obj rows
     = \<lparr>obj_own = obj_own obj @ filter (\<lambda>(p, i). p \<noteq> ''__proto__'') rows,
        obj_proto = (case map_of rows ''__proto__'' of None \<Rightarrow> obj_proto obj | Some r \<Rightarrow> Some r)\<rparr>"
  using assms
proof (induction rows arbitrary: obj)
  case Nil
  then show ?case by simp
next
  case (Cons row rows)
  obtain k v where row: "row = (k, v)" by (cases row)
  let ?obj = "assign_property k v obj"
  from Cons.prems row have d: "distinct (map fst rows)" and k: "k \<notin> fst ` set rows"
    and ko: "k \<notin> fst ` set (obj_own obj)" and o: "fst ` set rows \<inter> fst ` set (obj_own obj) = {}"
    by auto
  show ?case
  proof (cases "k = ''__proto__''")
    case True
    then have a: "obj_own ?obj = obj_own obj" "obj_proto ?obj = Some v"
      by (simp_all add: assign_property_def)
    from True k have m: "map_of rows ''__proto__'' = None" by (simp add: map_of_eq_None_iff)
    from Cons.IH[of ?obj] d o a m have
      "foldl (\<lambda>fileMap (path, info). assign_property path info fileMap) ?obj rows
         = \<lparr>obj_own = obj_own obj @ filter (\<lambda>(p, i). p \<noteq> ''__proto__'') rows,
            obj_proto = Some v\<rparr>"
      by simp
    with True row show ?thesis by simp
  next
    case False
    then have a: "obj_own ?obj = obj_own obj @ [(k, v)]" "obj_proto ?obj = obj_proto obj"
      using ko by (simp_all add: assign_property_def update_fresh)
    from o k a have o': "fst ` set rows \<inter> fst ` set (obj_own ?obj) = {}" by auto
    from Cons.IH[OF d o'] a False row show ?thesis by (simp cong: option.case_cong)
  qed
qed

lemma set_object_keys: "set (object_keys obj) = fst ` set (obj_own obj)"
  by (auto simp: object_keys_def Let_def)

lemma distinct_object_keys:
  assumes "distinct (map fst (obj_own obj))"
  shows "distinct (object_keys obj)"
  using assms by (auto simp: object_keys_def Let_def distinct_map_filter)

lemma length_filter_object_keys:
  "length (filter P (object_keys obj)) = length (filter P (map fst (obj_own obj)))"
proof -
  let ?ks = "map fst (obj_own obj)"
  have "length (filter P (sort_key read_nat (filter is_array_index ?ks)))
          = length (filter is_array_index (filter P ?ks))"
    by (simp add: filter_sort conj_commute)
  moreover have "length (filter P (filter (\<lambda>key. \<not> is_array_index key) ?ks))
          = length (filter (\<lambda>key. \<not> is_array_index key) (filter P ?ks))"
    by (simp add: conj_commute)
  ultimately show ?thesis
    using sum_length_filter_compl[of is_array_index "filter P ?ks"]
    by (simp add: object_keys_def Let_def)
qed

text \<open>
  The snapshot that \<open>getExistingFiles\<close> returns: the stored paths other than
  \<open>__proto__\<close> are its own keys, each once; the record of a stored path
  \<open>__proto__\<close> is its prototype.
\<close>

lemma getExistingFiles_object:
  "getExistingFiles vs pid
     = \<lparr>obj_own = filter (\<lambda>(p, i). p \<noteq> ''__proto__'')
                    (group_first (filter (\<lambda>d. doc_projectId d = pid) (vs_documents vs))),
        obj_proto = map_of (group_first (filter (\<lambda>d. doc_projectId d = pid) (vs_documents vs)))
                      ''__proto__''\<rparr>"
  unfolding getExistingFiles_def
  by (subst assign_rows) (auto simp: group_first_distinct empty_object_def split: option.splits)

lemma getExistingFiles_keys:
  "set (object_keys (getExistingFiles vs pid))
     = {p. chunks_of vs pid p \<noteq> [] \<and> p \<noteq> ''__proto__''}"
proof -
  have "set (object_keys (getExistingFiles vs pid))
          = doc_filePath ` set (filter (\<lambda>d. doc_projectId d = pid) (vs_documents vs))
              - {''__proto__''}"
    by (simp add: set_object_keys getExistingFiles_object group_first_keys fst_filter_neq
        del: set_filter)
  then show ?thesis
    by (auto simp: chunks_of_def filter_empty_conv)
qed

lemma getExistingFiles_distinct: "distinct (object_keys (getExistingFiles vs pid))"
proof -
  have "map fst (filter (\<lambda>(p, i). p \<noteq> k) xs) = filter (\<lambda>p. p \<noteq> k) (map fst xs)"
    for k and xs :: "(string \<times> file_info) list"
    by (induction xs) auto
  then show ?thesis
    by (intro distinct_object_keys) (simp add: getExistingFiles_object group_first_distinct)
qed

lemma getProjectStats_files:
  "g \<in> set (ps_files (getProjectStats vs pid)) \<longleftrightarrow> chunks_of vs pid g \<noteq> []"
  by (auto simp: getProjectStats_def Let_def chunks_of_def filter_empty_conv)

lemma run_deleted:
  assumes glob: "e_glob env dir (defaultExcludes @ excl) = Inr files"
    and ok: "fst (indexDirectory env has_jm dir pid excl True jobId jm vs) = Inr res"
  shows "res_deltaStats res \<noteq> None
       \<and> ds_deleted (the (res_deltaStats res))
           = length (filter (\<lambda>g. g \<notin> set files) (object_keys (getExistingFiles vs pid)))
       \<and> (\<forall>g. g \<in> set (object_keys (getExistingFiles vs pid)) \<and> g \<notin> set files \<longrightarrow>
             chunks_of (snd (snd (indexDirectory env has_jm dir pid excl True jobId jm vs))) pid g = [])"
proof -
  let ?R = "indexDirectory env has_jm dir pid excl True jobId jm vs"
  let ?sink = "job_sink has_jm jobId"
  let ?ex = "getExistingFiles vs pid"
  let ?t = "length (filter isTextFile files)"
  have None: "e_getExistingFiles_error env pid = None"
  proof (cases "e_getExistingFiles_error env pid")
    case (Some y)
    from indexDirectory_snapshot_fails[OF glob Some, where has_jm=has_jm and jobId=jobId and jm=jm and vs=vs]
      ok show ?thesis by simp
  qed simp
  from indexDirectory_run[OF glob, where d=True and pid=pid and has_jm=has_jm and jobId=jobId and vs=vs and jm=jm] None
  obtain jm7 where run: "case delete_phase env ?sink pid True ?ex
                      (process_files env ?sink dir pid True ?ex ?t files (init_loop_state jm7 vs)) of
                 Inl (e, st1) \<Rightarrow> fst ?R = Inl e \<and> snd (snd ?R) = ls_vs st1
               | Inr (n, st1) \<Rightarrow> ?R = save_phase env ?sink dir pid excl True ?t n st1"
    by auto
  let ?st = "process_files env ?sink dir pid True ?ex ?t files (init_loop_state jm7 vs)"
  have cf: "set (ls_currentFiles ?st) = set files"
    by (simp add: process_files_currentFiles)
  from process_files_documents[where env=env and sink="?sink" and dir=dir and pid=pid and d=True
      and ex="?ex" and t="?t" and files=files and st="init_loop_state jm7 vs"]
  have batch: "list_all (\<lambda>x. nd_projectId x = pid \<and> nd_filePath x \<in> set files) (ls_documents ?st)"
    by auto
  show ?thesis
  proof (cases "delete_phase env ?sink pid True ?ex ?st")
    case (Inl est)
    obtain e1 st1 where est: "est = (e1, st1)" by (cases est)
    from run Inl est ok show ?thesis by simp
  next
    case (Inr nst)
    obtain n st1 where nst: "nst = (n, st1)" by (cases nst)
    from run Inr nst have R: "?R = save_phase env ?sink dir pid excl True ?t n st1" by simp
    from delete_phase_effect[where env=env and sink="?sink" and pid=pid and d=True and ex="?ex"
        and st="?st" and n=n and ?st1.0=st1] Inr nst
    have d1: "ls_documents st1 = ls_documents ?st"
      "n = length (filter (\<lambda>f. f \<notin> set (ls_currentFiles ?st)) (object_keys ?ex))"
      "\<forall>f \<in> set (filter (\<lambda>f. f \<notin> set (ls_currentFiles ?st)) (object_keys ?ex)). chunks_of (ls_vs st1) pid f = []"
      by simp_all
    obtain r jm' vs' where sp: "save_phase env ?sink dir pid excl True ?t n st1 = (r, jm', vs')"
      by (metis prod_cases3)
    from R sp ok have r: "r = Inr res" by simp
    from save_phase_store[OF sp] r obtain ins where
      ins: "vs_documents vs' = vs_documents (ls_vs st1) @ ins"
        "set ins \<subseteq> set (to_insert (e_now env) (vs_next_id (ls_vs st1)) (ls_documents st1))"
        "res_deltaStats res = Some \<lparr>ds_skipped = ls_skipped st1, ds_updated = ls_updated st1,
                                        ds_added = ls_added st1, ds_deleted = n, ds_total = ?t\<rparr>"
      by auto
    have del: "chunks_of vs' pid g = []" if g: "g \<in> set (object_keys ?ex)" "g \<notin> set files" for g
    proof -
      from g d1(3) cf have k1: "chunks_of (ls_vs st1) pid g = []" by auto
      have "doc_filePath x \<noteq> g" if "x \<in> set ins" for x
      proof -
        from that ins(2) to_insert_props[where x=x and now="e_now env" and n="vs_next_id (ls_vs st1)"
            and docs="ls_documents st1"]
        obtain y where "y \<in> set (ls_documents st1)" "doc_filePath x = nd_filePath y" by blast
        with batch d1(1) g(2) show ?thesis by (auto simp: list_all_iff)
      qed
      then have "filter (\<lambda>x. doc_projectId x = pid \<and> doc_filePath x = g) ins = []"
        by (simp add: filter_empty_conv)
      with chunks_of_append[OF ins(1), where pid=pid and f=g] k1 show ?thesis by simp
    qed
    from ins(3) d1(2) cf del R sp show ?thesis by simp
  qed
qed

lemma remove_deleted_ok:
  assumes "\<forall>f. e_removeFileChunks_error env pid f = None"
  shows "fst (remove_deleted env pid fs vs n) = None"
  using assms by (induction fs arbitrary: vs n) simp_all

lemma indexDirectory_completes:
  assumes glob: "e_glob env dir (defaultExcludes @ excl) = Inr files"
    and "d \<longrightarrow> e_getExistingFiles_error env pid = None"
    and rm: "\<forall>f. e_removeFileChunks_error env pid f = None"
    and "e_addDocuments_error env = None" and "e_saveProjectMetadata_error env = None"
  shows "\<exists>res. fst (indexDirectory env has_jm dir pid excl d jobId jm vs) = Inr res"
proof -
  let ?R = "indexDirectory env has_jm dir pid excl d jobId jm vs"
  let ?sink = "job_sink has_jm jobId"
  let ?ex = "if d then getExistingFiles vs pid else empty_object"
  let ?t = "length (filter isTextFile files)"
  from indexDirectory_run[OF glob assms(2), where has_jm=has_jm and jobId=jobId and vs=vs and jm=jm]
  obtain jm7 where run: "case delete_phase env ?sink pid d ?ex
                      (process_files env ?sink dir pid d ?ex ?t files (init_loop_state jm7 vs)) of
                 Inl (e, st1) \<Rightarrow> fst ?R = Inl e \<and> snd (snd ?R) = ls_vs st1
               | Inr (n, st1) \<Rightarrow> ?R = save_phase env ?sink dir pid excl d ?t n st1"
    by auto
  let ?st = "process_files env ?sink dir pid d ?ex ?t files (init_loop_state jm7 vs)"
  have "\<exists>n st1. delete_phase env ?sink pid d ?ex ?st = Inr (n, st1)"
  proof (cases d)
    case False
    then show ?thesis by (simp add: delete_phase_def)
  next
    case True
    let ?del = "filter (\<lambda>f. f \<notin> set (ls_currentFiles ?st)) (object_keys ?ex)"
    from remove_deleted_ok[OF rm, of ?del "ls_vs ?st" 0]
    obtain vs1 n1 where "remove_deleted env pid ?del (ls_vs ?st) 0 = (None, vs1, n1)"
      by (cases "remove_deleted env pid ?del (ls_vs ?st) 0") auto
    with True show ?thesis by (simp add: delete_phase_def Let_def)
  qed
  then obtain n st1 where dp: "delete_phase env ?sink pid d ?ex ?st = Inr (n, st1)" by blast
  with run have R: "?R = save_phase env ?sink dir pid excl d ?t n st1" by simp
  have "\<exists>res. fst (save_phase env ?sink dir pid excl d ?t n st1) = Inr res"
    using assms(4,5) by (simp add: save_phase_def Let_def)
  with R show ?thesis by simp
qed

lemma process_files_other:
  assumes "f \<notin> set files"
  shows "chunks_of (ls_vs (process_files env sink dir pid d ex t files st)) pid f
           = chunks_of (ls_vs st) pid f"
  using assms
proof (induction files arbitrary: st)
  case Nil
  then show ?case by (simp add: process_files_Nil)
next
  case (Cons g gs)
  let ?s = "process_file env sink dir pid d ex t g st"
  from Cons.prems have ne: "g \<noteq> f" and r: "f \<notin> set gs" by auto
  from process_file_effect[of env sink dir pid d ex t g st]
  have v: "ls_vs ?s = ls_vs st \<or> ls_vs ?s = snd (removeFileChunks pid g (ls_vs st))"
    by blast
  with ne have "chunks_of (ls_vs ?s) pid f = chunks_of (ls_vs st) pid f"
    by (auto simp: chunks_of_remove)
  with Cons.IH[OF r, of ?s] show ?case by (simp add: process_files_Cons)
qed

text \<open>
  A delta run that returns: the counters of its result are those of the loop,
  and the chunks of a path that is neither listed nor a key of the snapshot
  are those before the run.
\<close>

lemma run_delta_result:
  assumes glob: "e_glob env dir (defaultExcludes @ excl) = Inr files"
    and ok: "fst (indexDirectory env has_jm dir pid excl True jobId jm vs) = Inr res"
  shows "\<exists>jm7. res_deltaStats res =
            Some \<lparr>ds_skipped = ls_skipped (process_files env (job_sink has_jm jobId) dir pid True
                                  (getExistingFiles vs pid) (length (filter isTextFile files)) files
                                  (init_loop_state jm7 vs)),
                  ds_updated = ls_updated (process_files env (job_sink has_jm jobId) dir pid True
                                  (getExistingFiles vs pid) (length (filter isTextFile files)) files
                                  (init_loop_state jm7 vs)),
                  ds_added = ls_added (process_files env (job_sink has_jm jobId) dir pid True
                                  (getExistingFiles vs pid) (length (filter isTextFile files)) files
                                  (init_loop_state jm7 vs)),
                  ds_deleted = length (filter (\<lambda>g. g \<notin> set files)
                                         (object_keys (getExistingFiles vs pid))),
                  ds_total = length (filter isTextFile files)\<rparr>"
    and "g \<notin> set files \<Longrightarrow> g \<notin> set (object_keys (getExistingFiles vs pid)) \<Longrightarrow>
           chunks_of (snd (snd (indexDirectory env has_jm dir pid excl True jobId jm vs))) pid g
             = chunks_of vs pid g"
proof -
  let ?R = "indexDirectory env has_jm dir pid excl True jobId jm vs"
  let ?sink = "job_sink has_jm jobId"
  let ?ex = "getExistingFiles vs pid"
  let ?t = "length (filter isTextFile files)"
  have None: "e_getExistingFiles_error env pid = None"
  proof (cases "e_getExistingFiles_error env pid")
    case (Some y)
    from indexDirectory_snapshot_fails[OF glob Some, where has_jm=has_jm and jobId=jobId and jm=jm and vs=vs]
      ok show ?thesis by simp
  qed simp
  from indexDirectory_run[OF glob, where d=True and pid=pid and has_jm=has_jm and jobId=jobId and vs=vs and jm=jm] None
  obtain jm7 where run: "case delete_phase env ?sink pid True ?ex
                      (process_files env ?sink dir pid True ?ex ?t files (init_loop_state jm7 vs)) of
                 Inl (e, st1) \<Rightarrow> fst ?R = Inl e \<and> snd (snd ?R) = ls_vs st1
               | Inr (n, st1) \<Rightarrow> ?R = save_phase env ?sink dir pid excl True ?t n st1"
    by auto
  let ?st = "process_files env ?sink dir pid True ?ex ?t files (init_loop_state jm7 vs)"
  have cf: "set (ls_currentFiles ?st) = set files"
    by (simp add: process_files_currentFiles)
  from process_files_documents[where env=env and sink="?sink" and dir=dir and pid=pid and d=True
      and ex="?ex" and t="?t" and files=files and st="init_loop_state jm7 vs"]
  have batch: "list_all (\<lambda>x. nd_projectId x = pid \<and> nd_filePath x \<in> set files) (ls_documents ?st)"
    by auto
  obtain n st1 where dp: "delete_phase env ?sink pid True ?ex ?st = Inr (n, st1)"
  proof (cases "delete_phase env ?sink pid True ?ex ?st")
    case (Inl est)
    obtain e1 st1 where est: "est = (e1, st1)" by (cases est)
    from run Inl est ok show ?thesis by simp
  next
    case (Inr nst)
    then show ?thesis using that by (cases nst) auto
  qed
  from run dp have R: "?R = save_phase env ?sink dir pid excl True ?t n st1" by simp
  obtain err vs1 n1 where
    rd: "remove_deleted env pid (filter (\<lambda>f. f \<notin> set (ls_currentFiles ?st)) (object_keys ?ex))
           (ls_vs ?st) 0 = (err, vs1, n1)"
    by (metis prod_cases3)
  from dp rd have vs1: "ls_vs st1 = vs1"
    by (auto simp: delete_phase_def Let_def split: option.splits)
  from delete_phase_effect[where env=env and sink="?sink" and pid=pid and d=True and ex="?ex"
      and st="?st" and n=n and ?st1.0=st1] dp
  have d1: "ls_documents st1 = ls_documents ?st"
    "ls_skipped st1 = ls_skipped ?st" "ls_updated st1 = ls_updated ?st" "ls_added st1 = ls_added ?st"
    "n = length (filter (\<lambda>f. f \<notin> set (ls_currentFiles ?st)) (object_keys ?ex))"
    by simp_all
  obtain r jm' vs' where sp: "save_phase env ?sink dir pid excl True ?t n st1 = (r, jm', vs')"
    by (metis prod_cases3)
  from R sp ok have r: "r = Inr res" by simp
  from save_phase_store[OF sp] r obtain ins where
    ins: "vs_documents vs' = vs_documents (ls_vs st1) @ ins"
      "set ins \<subseteq> set (to_insert (e_now env) (vs_next_id (ls_vs st1)) (ls_documents st1))"
      "res_deltaStats res = Some \<lparr>ds_skipped = ls_skipped st1, ds_updated = ls_updated st1,
                                      ds_added = ls_added st1, ds_deleted = n, ds_total = ?t\<rparr>"
    by auto
  from ins(3) d1 cf show "\<exists>jm7. res_deltaStats res =
            Some \<lparr>ds_skipped = ls_skipped (process_files env (job_sink has_jm jobId) dir pid True
                                  (getExistingFiles vs pid) (length (filter isTextFile files)) files
                                  (init_loop_state jm7 vs)),
                  ds_updated = ls_updated (process_files env (job_sink has_jm jobId) dir pid True
                                  (getExistingFiles vs pid) (length (filter isTextFile files)) files
                                  (init_loop_state jm7 vs)),
                  ds_added = ls_added (process_files env (job_sink has_jm jobId) dir pid True
                                  (getExistingFiles vs pid) (length (filter isTextFile files)) files
                                  (init_loop_state jm7 vs)),
                  ds_deleted = length (filter (\<lambda>g. g \<notin> set files)
                                         (object_keys (getExistingFiles vs pid))),
                  ds_total = length (filter isTextFile files)\<rparr>"
    by auto
  show "chunks_of (snd (snd ?R)) pid g = chunks_of vs pid g"
    if g: "g \<notin> set files" "g \<notin> set (object_keys ?ex)"
  proof -
    from process_files_other[OF g(1), of env ?sink dir pid True ?ex ?t "init_loop_state jm7 vs"]
    have k0: "chunks_of (ls_vs ?st) pid g = chunks_of vs pid g" by simp
    from remove_deleted_effect[OF rd] g(2)
    have "chunks_of vs1 pid g = chunks_of (ls_vs ?st) pid g" by simp
    with vs1 k0 have k1: "chunks_of (ls_vs st1) pid g = chunks_of vs pid g" by simp
    have "doc_filePath x \<noteq> g" if "x \<in> set ins" for x
    proof -
      from that ins(2) to_insert_props[where x=x and now="e_now env" and n="vs_next_id (ls_vs st1)"
          and docs="ls_documents st1"]
      obtain y where "y \<in> set (ls_documents st1)" "doc_filePath x = nd_filePath y" by blast
      with batch d1(1) g(1) show ?thesis by (auto simp: list_all_iff)
    qed
    then have "filter (\<lambda>x. doc_projectId x = pid \<and> doc_filePath x = g) ins = []"
      by (simp add: filter_empty_conv)
    with chunks_of_append[OF ins(1), where pid=pid and f=g] k1 R sp show ?thesis by simp
  qed
qed

section \<open>Delta indexing\<close>

lemma isTextFile_examples: "isTextFile ''a.js''" "isTextFile ''c.js''" "isTextFile ''b.js''"
  "isTextFile ''constructor''" "isTextFile ''__proto__''"
  by (simp_all add: isTextFile_def extname_def basename_def toLowerCase_def lower_char_def
      textExtensions_def Let_def)

lemma example_snapshot:
  "getExistingFiles example_store ''p''
     = \<lparr>obj_own = [(''a.js'', \<lparr>fi_fileSize = 1, fi_lastModified = 100, fi_contentHash = ''h''\<rparr>),
                   (''b.js'', \<lparr>fi_fileSize = 1, fi_lastModified = 100, fi_contentHash = ''h''\<rparr>)],
        obj_proto = None\<rparr>"
  by (simp add: getExistingFiles_object example_store_def example_doc_def)

lemma example_keys: "object_keys (getExistingFiles example_store ''p'') = [''a.js'', ''b.js'']"
  by (simp add: example_snapshot object_keys_def is_array_index_def)

lemma index_file_counters:
  "ls_skipped (index_file env sink pid d t file content mtime hash st) = ls_skipped st"
  "ls_updated (index_file env sink pid d t file content mtime hash st) = ls_updated st"
  "ls_added (index_file env sink pid d t file content mtime hash st) = ls_added st"
  "ls_vs (index_file env sink pid d t file content mtime hash st) = ls_vs st"
  by (simp_all add: index_file_def Let_def file_error_def split: prod.splits option.splits)

text \<open>
  What \<open>existingFiles[file]\<close> delivers for the snapshot of a store. For a path
  that is not the name of a member of \<open>Object.prototype\<close> it is the record of
  the path, or \<open>undefined\<close> when the project has no chunk of the path;
  unless the store holds a path \<open>__proto__\<close>, whose record then answers for
  the names of its three fields.
\<close>

lemma map_of_filter_key:
  "k \<noteq> k' \<Longrightarrow> map_of (filter (\<lambda>(p, i). p \<noteq> k') xs) k = map_of xs k"
  by (induction xs) auto

lemma snapshot_read:
  assumes "f \<noteq> ''__proto__''" "f \<notin> set object_prototype_keys"
    and "chunks_of vs pid ''__proto__'' = [] \<or> f \<notin> {''fileSize'', ''lastModified'', ''contentHash''}"
  shows "get_property (getExistingFiles vs pid) f
           = (case map_of (group_first (filter (\<lambda>d. doc_projectId d = pid) (vs_documents vs))) f of
                None \<Rightarrow> JsUndefined | Some e \<Rightarrow> JsRecord e)"
    and "truthy (get_property (getExistingFiles vs pid) f) \<longleftrightarrow> chunks_of vs pid f \<noteq> []"
proof -
  let ?rows = "group_first (filter (\<lambda>d. doc_projectId d = pid) (vs_documents vs))"
  have keys: "k \<in> fst ` set ?rows \<longleftrightarrow> chunks_of vs pid k \<noteq> []" for k
    by (auto simp: group_first_keys chunks_of_def filter_empty_conv)
  have p: "(case map_of ?rows ''__proto__'' of None \<Rightarrow> None | Some r \<Rightarrow> record_property r f) = None"
  proof (cases "map_of ?rows ''__proto__''")
    case None
    then show ?thesis by simp
  next
    case (Some r)
    then have "''__proto__'' \<in> fst ` set ?rows" by (metis map_of_eq_None_iff option.distinct(1))
    with keys assms(3) have "f \<notin> {''fileSize'', ''lastModified'', ''contentHash''}" by blast
    with Some show ?thesis by (simp add: record_property_def)
  qed
  show r: "get_property (getExistingFiles vs pid) f
           = (case map_of ?rows f of None \<Rightarrow> JsUndefined | Some e \<Rightarrow> JsRecord e)"
    using assms(1,2) p
    by (simp add: get_property_def getExistingFiles_object map_of_filter_key split: option.splits)
  show "truthy (get_property (getExistingFiles vs pid) f) \<longleftrightarrow> chunks_of vs pid f \<noteq> []"
  proof (cases "map_of ?rows f")
    case None
    then have "f \<notin> fst ` set ?rows" by (simp add: map_of_eq_None_iff)
    with keys[of f] None r show ?thesis by simp
  next
    case (Some e)
    then have "(f, e) \<in> set ?rows" by (rule map_of_SomeD)
    then have "f \<in> fst ` set ?rows" by force
    with keys[of f] Some r show ?thesis by simp
  qed
qed

text \<open>
  In delta mode, for a text file \<open>f\<close> that \<open>stat\<close> and \<open>readFile\<close> deliver
  and whose content is not longer than 1 MiB, the iteration of the loop for
  \<open>f\<close> does the following. When the value read from the snapshot is a
  record whose hash and size equal the current ones and whose
  \<open>lastModified\<close> is not before the modification time, only \<open>skipped\<close> is
  incremented: store, pending documents, registry and the other counters
  stay. When the value is truthy and that test fails, and \<open>removeFileChunks\<close>
  does not reject, \<open>updated\<close> is incremented, the store is the store without
  the chunks of \<open>(projectId, f)\<close>, and the new documents of \<open>f\<close> are
  appended to the pending documents only. When the value is falsy, \<open>added\<close>
  is incremented and the store stays. For the whole run over a listing that
  holds \<open>f\<close>: in the first case the stored chunks of \<open>(projectId, f)\<close>
  after the run are those before it; in the second case, when the run
  completes, every stored chunk of \<open>(projectId, f)\<close> was inserted by this run
  and carries the hash of the new content.
\<close>

lemma process_file_delta:
  assumes "isTextFile f" and "e_stat env (path_join dir f) = Inr mtime"
    and "e_readFile env (path_join dir f) = Inr content" and "length content \<le> 1024 * 1024"
  shows
   "(\<forall>e. get_property existing f = JsRecord e \<and> unchanged e (e_md5 env content) (length content) mtime \<longrightarrow>
       (let st' = process_file env sink dir pid True existing totalFiles f st
        in ls_skipped st' = ls_skipped st + 1 \<and> ls_updated st' = ls_updated st
           \<and> ls_added st' = ls_added st \<and> ls_processed st' = ls_processed st
           \<and> ls_vs st' = ls_vs st \<and> ls_documents st' = ls_documents st \<and> ls_jm st' = ls_jm st))
    \<and> (truthy (get_property existing f)
         \<and> \<not> is_unchanged (get_property existing f) (e_md5 env content) (length content) mtime
         \<and> e_removeFileChunks_error env pid f = None \<longrightarrow>
       (let st' = process_file env sink dir pid True existing totalFiles f st
        in ls_updated st' = ls_updated st + 1 \<and> ls_skipped st' = ls_skipped st
           \<and> ls_added st' = ls_added st
           \<and> vs_documents (ls_vs st')
                = filter (\<lambda>x. \<not> (doc_projectId x = pid \<and> doc_filePath x = f))
                    (vs_documents (ls_vs st))
           \<and> chunks_of (ls_vs st') pid f = []
           \<and> (\<exists>new. ls_documents st' = ls_documents st @ new
                  \<and> list_all (\<lambda>x. nd_projectId x = pid \<and> nd_filePath x = f
                                    \<and> md_contentHash (nd_metadata x) = e_md5 env content) new)))
    \<and> (\<not> truthy (get_property existing f) \<longrightarrow>
       (let st' = process_file env sink dir pid True existing totalFiles f st
        in ls_added st' = ls_added st + 1 \<and> ls_skipped st' = ls_skipped st
           \<and> ls_updated st' = ls_updated st \<and> ls_vs st' = ls_vs st))
    \<and> (\<forall>e files. e_glob env dir (defaultExcludes @ excl) = Inr files \<and> f \<in> set files
            \<and> get_property (getExistingFiles vs pid) f = JsRecord e
            \<and> unchanged e (e_md5 env content) (length content) mtime \<longrightarrow>
          chunks_of (snd (snd (indexDirectory env has_jm dir pid excl True jobId jm vs))) pid f
            = chunks_of vs pid f)
    \<and> (\<forall>files res. e_glob env dir (defaultExcludes @ excl) = Inr files \<and> f \<in> set files
            \<and> truthy (get_property (getExistingFiles vs pid) f)
            \<and> \<not> is_unchanged (get_property (getExistingFiles vs pid) f) (e_md5 env content)
                  (length content) mtime
            \<and> e_removeFileChunks_error env pid f = None
            \<and> fst (indexDirectory env has_jm dir pid excl True jobId jm vs) = Inr res \<longrightarrow>
          (\<forall>x \<in> set (chunks_of (snd (snd (indexDirectory env has_jm dir pid excl True jobId jm vs)))
                        pid f).
              vs_next_id vs \<le> doc_id x \<and> md_contentHash (doc_metadata x) = e_md5 env content))"
proof -
  let ?st' = "process_file env sink dir pid True existing totalFiles f st"
  have 1: "ls_skipped ?st' = ls_skipped st + 1 \<and> ls_updated ?st' = ls_updated st
           \<and> ls_added ?st' = ls_added st \<and> ls_processed ?st' = ls_processed st
           \<and> ls_vs ?st' = ls_vs st \<and> ls_documents ?st' = ls_documents st \<and> ls_jm ?st' = ls_jm st"
    if "get_property existing f = JsRecord e" "unchanged e (e_md5 env content) (length content) mtime" for e
    unfolding process_file_unchanged[OF assms that] by (simp add: entered_def)
  have 2: "ls_updated ?st' = ls_updated st + 1 \<and> ls_skipped ?st' = ls_skipped st
           \<and> ls_added ?st' = ls_added st
           \<and> vs_documents (ls_vs ?st')
                = filter (\<lambda>x. \<not> (doc_projectId x = pid \<and> doc_filePath x = f))
                    (vs_documents (ls_vs st))
           \<and> chunks_of (ls_vs ?st') pid f = []
           \<and> (\<exists>new. ls_documents ?st' = ls_documents st @ new
                  \<and> list_all (\<lambda>x. nd_projectId x = pid \<and> nd_filePath x = f
                                    \<and> md_contentHash (nd_metadata x) = e_md5 env content) new)"
    if "truthy (get_property existing f)"
      "\<not> is_unchanged (get_property existing f) (e_md5 env content) (length content) mtime"
      "e_removeFileChunks_error env pid f = None"
  proof -
    let ?s = "(entered f st)\<lparr>ls_vs := snd (removeFileChunks pid f (ls_vs st)),
                          ls_updated := ls_updated st + 1\<rparr>"
    have eq: "?st' = index_file env sink pid True totalFiles f content mtime (e_md5 env content) ?s"
      by (rule process_file_updated[OF assms that])
    from index_file_documents[where env=env and sink=sink and pid=pid and d=True and t=totalFiles
        and path=f and content=content and mtime=mtime and hash="e_md5 env content" and st="?s"]
    have d: "\<exists>new. ls_documents ?st' = ls_documents st @ new
                  \<and> list_all (\<lambda>x. nd_projectId x = pid \<and> nd_filePath x = f
                                    \<and> md_contentHash (nd_metadata x) = e_md5 env content) new"
      unfolding eq by (simp add: entered_def)
    have c: "ls_updated ?st' = ls_updated st + 1 \<and> ls_skipped ?st' = ls_skipped st
           \<and> ls_added ?st' = ls_added st \<and> ls_vs ?st' = snd (removeFileChunks pid f (ls_vs st))"
      unfolding eq by (simp add: index_file_counters entered_def)
    from c d show ?thesis by (simp add: docs_remove chunks_of_remove)
  qed
  have 3: "ls_added ?st' = ls_added st + 1 \<and> ls_skipped ?st' = ls_skipped st
           \<and> ls_updated ?st' = ls_updated st \<and> ls_vs ?st' = ls_vs st"
    if "\<not> truthy (get_property existing f)"
    unfolding process_file_added[OF assms that] by (simp add: index_file_counters entered_def)
  have 4: "chunks_of (snd (snd (indexDirectory env has_jm dir pid excl True jobId jm vs))) pid f
            = chunks_of vs pid f"
    if "e_glob env dir (defaultExcludes @ excl) = Inr files" "f \<in> set files"
      "get_property (getExistingFiles vs pid) f = JsRecord e"
      "unchanged e (e_md5 env content) (length content) mtime" for e files
    by (rule run_unchanged[OF assms that])
  have 5: "vs_next_id vs \<le> doc_id x \<and> md_contentHash (doc_metadata x) = e_md5 env content"
    if "e_glob env dir (defaultExcludes @ excl) = Inr files" "f \<in> set files"
      "truthy (get_property (getExistingFiles vs pid) f)"
      "\<not> is_unchanged (get_property (getExistingFiles vs pid) f) (e_md5 env content)
           (length content) mtime"
      "e_removeFileChunks_error env pid f = None"
      "fst (indexDirectory env has_jm dir pid excl True jobId jm vs) = Inr res"
      "x \<in> set (chunks_of (snd (snd (indexDirectory env has_jm dir pid excl True jobId jm vs))) pid f)"
    for files res x
    by (rule run_updated[OF assms that])
  from 1 2 3 4 5 show ?thesis unfolding Let_def by blast
qed

text \<open>
  Instances over the example store, whose project \<open>p\<close> holds \<open>a.js\<close> and
  \<open>b.js\<close> with hash \<open>h\<close>, size 1 and modification time 100: \<open>a.js\<close> with
  the content \<open>h\<close> is unchanged, \<open>a.js\<close> with the content \<open>xy\<close> is updated,
  and \<open>c.js\<close> is added.
\<close>

lemma process_file_delta_examples:
  "ls_skipped (process_file (example_env (Inr [''a.js'', ''c.js'']) ''h'') None ''/src'' ''p'' True
                 (getExistingFiles example_store ''p'') 2 ''a.js''
                 (init_loop_state example_jm example_store)) = 1
   \<and> chunks_of (snd (snd (indexDirectory (example_env (Inr [''a.js'', ''c.js'']) ''h'') True ''/src''
                             ''p'' [] True None example_jm example_store))) ''p'' ''a.js''
       = chunks_of example_store ''p'' ''a.js''
   \<and> ls_updated (process_file (example_env (Inr [''a.js'']) ''xy'') None ''/src'' ''p'' True
                 (getExistingFiles example_store ''p'') 1 ''a.js''
                 (init_loop_state example_jm example_store)) = 1
   \<and> chunks_of (ls_vs (process_file (example_env (Inr [''a.js'']) ''xy'') None ''/src'' ''p'' True
                 (getExistingFiles example_store ''p'') 1 ''a.js''
                 (init_loop_state example_jm example_store))) ''p'' ''a.js'' = []
   \<and> list_all (\<lambda>x. 2 \<le> doc_id x \<and> md_contentHash (doc_metadata x) = ''xy'')
        (chunks_of (snd (snd (indexDirectory (example_env (Inr [''a.js'']) ''xy'') True ''/src''
                             ''p'' [] True None example_jm example_store))) ''p'' ''a.js'')
   \<and> ls_added (process_file (example_env (Inr [''a.js'', ''c.js'']) ''h'') None ''/src'' ''p'' True
                 (getExistingFiles example_store ''p'') 2 ''c.js''
                 (init_loop_state example_jm example_store)) = 1"
proof -
  let ?envA = "example_env (Inr [''a.js'', ''c.js'']) ''h''"
  let ?envB = "example_env (Inr [''a.js'']) ''xy''"
  let ?ex = "getExistingFiles example_store ''p''"
  let ?e = "\<lparr>fi_fileSize = 1, fi_lastModified = 100, fi_contentHash = ''h''\<rparr>"
  let ?st0 = "init_loop_state example_jm example_store"
  have sA: "e_stat ?envA (path_join ''/src'' f) = Inr 100"
    and rA: "e_readFile ?envA (path_join ''/src'' f) = Inr ''h''"
    and gA: "e_glob ?envA ''/src'' (defaultExcludes @ []) = Inr [''a.js'', ''c.js'']" for f
    by (simp_all add: example_env_def)
  have sB: "e_stat ?envB (path_join ''/src'' f) = Inr 100"
    and rB: "e_readFile ?envB (path_join ''/src'' f) = Inr ''xy''"
    and gB: "e_glob ?envB ''/src'' (defaultExcludes @ []) = Inr [''a.js'']"
    and mB: "e_removeFileChunks_error ?envB ''p'' ''a.js'' = None" for f
    by (simp_all add: example_env_def)
  have szA: "length ''h'' \<le> 1024 * 1024" and szB: "length ''xy'' \<le> 1024 * 1024" by simp_all
  have ma: "get_property ?ex ''a.js'' = JsRecord ?e" and mc: "\<not> truthy (get_property ?ex ''c.js'')"
    by (simp_all add: example_snapshot get_property_def object_prototype_keys_def)
  have ta: "truthy (get_property ?ex ''a.js'')" unfolding ma by simp
  have un: "unchanged ?e (e_md5 ?envA ''h'') (length ''h'') 100"
    by (simp add: unchanged_def example_env_def)
  have ch: "\<not> is_unchanged (get_property ?ex ''a.js'') (e_md5 ?envB ''xy'') (length ''xy'') 100"
    unfolding ma by (simp add: is_unchanged_def unchanged_def example_env_def)
  have hB: "e_md5 ?envB ''xy'' = ''xy''" by (simp add: example_env_def)
  have n0: "vs_next_id example_store = 2" by (simp add: example_store_def)
  have c0: "ls_skipped ?st0 = 0" "ls_updated ?st0 = 0" "ls_added ?st0 = 0"
    by (simp_all add: init_loop_state_def)
  obtain res where ok: "fst (indexDirectory ?envB True ''/src'' ''p'' [] True None example_jm example_store) = Inr res"
    using indexDirectory_completes[OF gB, of True "''p''" True None example_jm example_store]
    by (auto simp: example_env_def)
  note TA = process_file_delta[OF isTextFile_examples(1) sA rA szA, where existing="?ex" and sink=None
      and pid="''p''" and totalFiles=2 and st="?st0" and excl="[]" and vs=example_store and has_jm=True
      and jobId=None and jm=example_jm]
  note TB = process_file_delta[OF isTextFile_examples(1) sB rB szB, where existing="?ex" and sink=None
      and pid="''p''" and totalFiles=1 and st="?st0" and excl="[]" and vs=example_store and has_jm=True
      and jobId=None and jm=example_jm]
  note TC = process_file_delta[OF isTextFile_examples(2) sA rA szA, where existing="?ex" and sink=None
      and pid="''p''" and totalFiles=2 and st="?st0" and excl="[]" and vs=example_store and has_jm=True
      and jobId=None and jm=example_jm]
  from TA[THEN conjunct1, rule_format, OF conjI[OF ma un]] c0
  have 1: "ls_skipped (process_file ?envA None ''/src'' ''p'' True ?ex 2 ''a.js'' ?st0) = 1"
    by (simp add: Let_def)
  from TA[THEN conjunct2, THEN conjunct2, THEN conjunct2, THEN conjunct1, rule_format,
      of "[''a.js'', ''c.js'']" ?e] gA ma un
  have 2: "chunks_of (snd (snd (indexDirectory ?envA True ''/src'' ''p'' [] True None example_jm
                                 example_store))) ''p'' ''a.js''
       = chunks_of example_store ''p'' ''a.js''"
    by simp
  from TB[THEN conjunct2, THEN conjunct1, rule_format, OF conjI[OF ta conjI[OF ch mB]]] c0
  have 3: "ls_updated (process_file ?envB None ''/src'' ''p'' True ?ex 1 ''a.js'' ?st0) = 1"
    and 4: "chunks_of (ls_vs (process_file ?envB None ''/src'' ''p'' True ?ex 1 ''a.js'' ?st0)) ''p'' ''a.js'' = []"
    by (simp_all add: Let_def)
  from TB[THEN conjunct2, THEN conjunct2, THEN conjunct2, THEN conjunct2, rule_format,
      of "[''a.js'']" res] gB ta ch mB ok
  have 5: "list_all (\<lambda>x. 2 \<le> doc_id x \<and> md_contentHash (doc_metadata x) = ''xy'')
        (chunks_of (snd (snd (indexDirectory ?envB True ''/src'' ''p'' [] True None example_jm
                                example_store))) ''p'' ''a.js'')"
    by (simp add: list_all_iff hB n0)
  from TC[THEN conjunct2, THEN conjunct2, THEN conjunct1, rule_format, OF mc] c0
  have 6: "ls_added (process_file ?envA None ''/src'' ''p'' True ?ex 2 ''c.js'' ?st0) = 1"
    by (simp add: Let_def)
  from 1 2 3 4 5 6 show ?thesis by blast
qed

text \<open>
  Claim C1 (delta decision). The claim says that a file without a prior record
  is counted as added. The loop reads the record by \<open>existingFiles[file]\<close> from
  a plain object, so that for a file of the project root whose name is that of
  a member of \<open>Object.prototype\<close> the read delivers that member: in the delta
  run below the directory holds the single file \<open>constructor\<close>, of which the
  store holds no chunk, and the run returns a result that counts one updated
  file and no added file.
\<close>

theorem indexDirectory_counts_new_file_as_updated:
  "chunks_of example_store ''p'' ''constructor'' = []
   \<and> (\<exists>res stats.
         fst (indexDirectory (example_env (Inr [''constructor'']) ''h'') True ''/src'' ''p'' [] True
                None example_jm example_store) = Inr res
         \<and> res_deltaStats res = Some stats
         \<and> ds_updated stats = 1 \<and> ds_added stats = 0 \<and> ds_skipped stats = 0)"
proof -
  let ?env = "example_env (Inr [''constructor'']) ''h''"
  let ?R = "indexDirectory ?env True ''/src'' ''p'' [] True None example_jm example_store"
  let ?ex = "getExistingFiles example_store ''p''"
  have g: "e_glob ?env ''/src'' (defaultExcludes @ []) = Inr [''constructor'']"
    by (simp add: example_env_def)
  have s: "e_stat ?env (path_join ''/src'' ''constructor'') = Inr 100"
    and r: "e_readFile ?env (path_join ''/src'' ''constructor'') = Inr ''h''"
    and m: "e_removeFileChunks_error ?env ''p'' ''constructor'' = None"
    by (simp_all add: example_env_def)
  have sz: "length ''h'' \<le> 1024 * 1024" by simp
  have v: "get_property ?ex ''constructor'' = JsBuiltin"
    by (simp add: example_snapshot get_property_def object_prototype_keys_def)
  have t: "truthy (get_property ?ex ''constructor'')"
    and u: "\<not> is_unchanged (get_property ?ex ''constructor'') (e_md5 ?env ''h'') (length ''h'') 100"
    unfolding v by (simp_all add: is_unchanged_def)
  obtain res where ok: "fst ?R = Inr res"
    using indexDirectory_completes[OF g, of True "''p''" True None example_jm example_store]
    by (auto simp: example_env_def)
  from run_delta_result(1)[OF g ok] obtain jm7 where
    d: "res_deltaStats res =
          Some \<lparr>ds_skipped = ls_skipped (process_files ?env (job_sink True None) ''/src'' ''p'' True ?ex
                                  (length (filter isTextFile [''constructor''])) [''constructor'']
                                  (init_loop_state jm7 example_store)),
                ds_updated = ls_updated (process_files ?env (job_sink True None) ''/src'' ''p'' True ?ex
                                  (length (filter isTextFile [''constructor''])) [''constructor'']
                                  (init_loop_state jm7 example_store)),
                ds_added = ls_added (process_files ?env (job_sink True None) ''/src'' ''p'' True ?ex
                                  (length (filter isTextFile [''constructor''])) [''constructor'']
                                  (init_loop_state jm7 example_store)),
                ds_deleted = length (filter (\<lambda>g. g \<notin> set [''constructor'']) (object_keys ?ex)),
                ds_total = length (filter isTextFile [''constructor''])\<rparr>"
    by blast
  let ?st = "process_files ?env (job_sink True None) ''/src'' ''p'' True ?ex
               (length (filter isTextFile [''constructor''])) [''constructor'']
               (init_loop_state jm7 example_store)"
  have pf: "?st = process_file ?env (job_sink True None) ''/src'' ''p'' True ?ex
               (length (filter isTextFile [''constructor''])) ''constructor''
               (init_loop_state jm7 example_store)"
    by (simp only: process_files_Cons process_files_Nil)
  have c: "ls_updated ?st = 1" "ls_added ?st = 0" "ls_skipped ?st = 0"
    unfolding pf process_file_updated[OF isTextFile_examples(4) s r sz t u m]
    by (simp_all add: index_file_counters entered_def init_loop_state_def)
  have b: "chunks_of example_store ''p'' ''constructor'' = []"
    by (simp add: chunks_of_def example_store_def example_doc_def)
  from ok d c b show ?thesis by simp
qed

section \<open>Deleted files\<close>

text \<open>
  For a delta-mode run that completes, \<open>deltaStats.deleted\<close> is the number of
  keys of the snapshot object (each of them once) that the directory listing
  does not hold, and every such key has no chunk left in the store after the
  run and is not among the files of \<open>getProjectStats\<close>. The keys are the
  stored paths of the project other than \<open>__proto__\<close>.
\<close>

lemma deleted_keys_reconciled:
  assumes "e_glob env dir (defaultExcludes @ excl) = Inr files"
    and "fst (indexDirectory env has_jm dir pid excl True jobId jm vs) = Inr res"
  shows "(\<exists>stats. res_deltaStats res = Some stats
            \<and> ds_deleted stats
                = length (filter (\<lambda>g. g \<notin> set files) (object_keys (getExistingFiles vs pid))))
       \<and> distinct (object_keys (getExistingFiles vs pid))
       \<and> (\<forall>g. chunks_of vs pid g \<noteq> [] \<and> g \<noteq> ''__proto__'' \<and> g \<notin> set files \<longrightarrow>
             chunks_of (snd (snd (indexDirectory env has_jm dir pid excl True jobId jm vs))) pid g = []
             \<and> g \<notin> set (ps_files (getProjectStats
                                     (snd (snd (indexDirectory env has_jm dir pid excl True jobId jm vs)))
                                     pid)))"
proof -
  note D = run_deleted[OF assms]
  from D have a: "\<exists>stats. res_deltaStats res = Some stats
            \<and> ds_deleted stats
                = length (filter (\<lambda>g. g \<notin> set files) (object_keys (getExistingFiles vs pid)))"
    by (cases "res_deltaStats res") auto
  have b: "distinct (object_keys (getExistingFiles vs pid))"
    by (rule getExistingFiles_distinct)
  have c: "chunks_of (snd (snd (indexDirectory env has_jm dir pid excl True jobId jm vs))) pid g = []
             \<and> g \<notin> set (ps_files (getProjectStats
                                     (snd (snd (indexDirectory env has_jm dir pid excl True jobId jm vs)))
                                     pid))"
    if "chunks_of vs pid g \<noteq> []" "g \<noteq> ''__proto__''" "g \<notin> set files" for g
  proof -
    from that(1,2) have "g \<in> set (object_keys (getExistingFiles vs pid))"
      by (simp add: getExistingFiles_keys)
    with D that(3) have "chunks_of (snd (snd (indexDirectory env has_jm dir pid excl True jobId jm vs))) pid g = []"
      by blast
    then show ?thesis by (simp add: getProjectStats_files)
  qed
  from a b c show ?thesis by blast
qed

text \<open>
  Claim C2 (deletion reconciliation). The claim says that every path of the
  prior snapshot that the walk does not visit is purged and counted. With the
  store that holds chunks of \<open>a.js\<close>, \<open>b.js\<close> and \<open>__proto__\<close>, the
  assignment \<open>fileMap['__proto__'] = {...}\<close> in \<open>getExistingFiles\<close> adds no key
  to the snapshot, so that \<open>Object.keys\<close> does not deliver the path: in the
  delta run below over a directory that holds \<open>a.js\<close> only, \<open>b.js\<close> is
  purged and counted, and the chunk of \<open>__proto__\<close> stays in the store and
  among the files of \<open>getProjectStats\<close>.
\<close>

theorem indexDirectory_keeps_deleted_file_proto:
  "chunks_of proto_store ''p'' ''__proto__'' \<noteq> []
   \<and> ''__proto__'' \<notin> set [''a.js'']
   \<and> (\<exists>res stats.
         fst (indexDirectory (example_env (Inr [''a.js'']) ''h'') True ''/src'' ''p'' [] True None
                example_jm proto_store) = Inr res
         \<and> res_deltaStats res = Some stats \<and> ds_deleted stats = 1)
   \<and> chunks_of (snd (snd (indexDirectory (example_env (Inr [''a.js'']) ''h'') True ''/src'' ''p'' []
                             True None example_jm proto_store))) ''p'' ''b.js'' = []
   \<and> chunks_of (snd (snd (indexDirectory (example_env (Inr [''a.js'']) ''h'') True ''/src'' ''p'' []
                             True None example_jm proto_store))) ''p'' ''__proto__''
       = chunks_of proto_store ''p'' ''__proto__''
   \<and> ''__proto__'' \<in> set (ps_files (getProjectStats
         (snd (snd (indexDirectory (example_env (Inr [''a.js'']) ''h'') True ''/src'' ''p'' []
                      True None example_jm proto_store))) ''p''))"
proof -
  let ?env = "example_env (Inr [''a.js'']) ''h''"
  let ?R = "indexDirectory ?env True ''/src'' ''p'' [] True None example_jm proto_store"
  have g: "e_glob ?env ''/src'' (defaultExcludes @ []) = Inr [''a.js'']"
    by (simp add: example_env_def)
  obtain res where ok: "fst ?R = Inr res"
    using indexDirectory_completes[OF g, of True "''p''" True None example_jm proto_store]
    by (auto simp: example_env_def)
  have snap: "getExistingFiles proto_store ''p''
     = \<lparr>obj_own = [(''a.js'', \<lparr>fi_fileSize = 1, fi_lastModified = 100, fi_contentHash = ''h''\<rparr>),
                   (''b.js'', \<lparr>fi_fileSize = 1, fi_lastModified = 100, fi_contentHash = ''h''\<rparr>)],
        obj_proto = Some \<lparr>fi_fileSize = 1, fi_lastModified = 100, fi_contentHash = ''h''\<rparr>\<rparr>"
    by (simp add: getExistingFiles_object proto_store_def example_doc_def)
  have keys: "object_keys (getExistingFiles proto_store ''p'') = [''a.js'', ''b.js'']"
    by (simp add: snap object_keys_def is_array_index_def)
  have before: "chunks_of proto_store ''p'' ''__proto__'' \<noteq> []"
    "chunks_of proto_store ''p'' ''b.js'' \<noteq> []"
    by (simp_all add: chunks_of_def proto_store_def example_doc_def)
  note D = deleted_keys_reconciled[OF g ok]
  from D[THEN conjunct1] obtain stats where
    s: "res_deltaStats res = Some stats" "ds_deleted stats = 1"
    by (auto simp: keys)
  from D[THEN conjunct2, THEN conjunct2, rule_format, of "''b.js''"] before(2)
  have b: "chunks_of (snd (snd ?R)) ''p'' ''b.js'' = []" by simp
  from run_delta_result(2)[OF g ok, of "''__proto__''"]
  have p: "chunks_of (snd (snd ?R)) ''p'' ''__proto__'' = chunks_of proto_store ''p'' ''__proto__''"
    by (simp add: keys)
  with before(1) have l: "''__proto__'' \<in> set (ps_files (getProjectStats (snd (snd ?R)) ''p''))"
    by (simp add: getProjectStats_files)
  from before(1) ok s b p l show ?thesis by simp
qed

section \<open>Error handling\<close>

text \<open>
  A failure of \<^verbatim>\<open>fs.stat\<close> or \<^verbatim>\<open>fs.readFile\<close> for one file is caught by the
  per-file handler: the file is only entered into the set of current files, the error is logged,
  and nothing of the file reaches the batch of documents.
\<close>

lemma process_file_stat_error:
  "isTextFile f \<Longrightarrow> e_stat env (path_join dir f) = Inl e \<Longrightarrow>
     process_file env sink dir pid d ex t f st = file_error env sink f e (entered f st)"
  by (simp add: process_file_def Let_def entered_def)

lemma process_file_read_error:
  "isTextFile f \<Longrightarrow> e_stat env (path_join dir f) = Inr mtime \<Longrightarrow>
   e_readFile env (path_join dir f) = Inl e \<Longrightarrow>
     process_file env sink dir pid d ex t f st = file_error env sink f e (entered f st)"
  by (simp add: process_file_def Let_def entered_def)

lemma file_error_logged:
  assumes "getJob (ls_jm st) jid = Some job"
  shows "\<exists>job'. getJob (ls_jm (file_error env (Some jid) f e st)) jid = Some job'
           \<and> job_logs job' \<noteq> []
           \<and> log_message (last (job_logs job')) = ''Error processing file '' @ f @ '': '' @ e
           \<and> log_level (last (job_logs job')) = ''error''"
  using assms by (simp add: file_error_def logMethod_def getJob_addJobLog last_n_def)

lemma save_phase_insert_fails:
  "ls_documents st \<noteq> [] \<Longrightarrow> e_addDocuments_error env = Some e \<Longrightarrow>
     fst (save_phase env sink dir pid excl d t n st) = Inl e
     \<and> snd (snd (save_phase env sink dir pid excl d t n st)) = ls_vs st"
  by (simp add: save_phase_def Let_def index_failed_def)

lemma save_phase_upsert_fails:
  "e_addDocuments_error env = None \<or> ls_documents st = [] \<Longrightarrow>
   e_saveProjectMetadata_error env = Some e \<Longrightarrow>
     fst (save_phase env sink dir pid excl d t n st) = Inl e"
  by (auto simp: save_phase_def Let_def index_failed_def)

text \<open>
  A run over a directory holding the single file \<^verbatim>\<open>a.txt\<close>, whose content splits into two
  chunks, with an embedding provider that rejects the second chunk.
\<close>

lemma two_chunk_lines: "split_nl two_chunk_file = [replicate 2000 (CHR ''x''), ''y'']"
proof -
  have "split_nl (replicate 2000 (CHR ''x'') @ NL # ''y'') = replicate 2000 (CHR ''x'') # split_nl ''y''"
    by (rule split_nl_append) (simp add: NL_def)
  then show ?thesis by (simp add: NL_def two_chunk_file_def)
qed

lemma two_chunk_chunks:
  "chunkContent two_chunk_file ''a.txt''
     = [mk_chunk ''a.txt'' (replicate 2000 (CHR ''x'') @ [NL]) 1 2,
        mk_chunk ''a.txt'' (''y'' @ [NL]) 2 3]"
  by (simp add: chunkContent_def accumulate_chunks_def two_chunk_lines maxChunkSize_def trim_def
      is_ws_def NL_def Let_def numeral_2_eq_2 numeral_3_eq_3)

lemma show_nat_1: "show_nat (Suc 0) = ''1''" and show_nat_2: "show_nat 2 = ''2''"
  by code_simp+

lemma chunk1_no_y: "CHR ''y'' \<notin> set (ch_content (mk_chunk ''a.txt'' (replicate 2000 (CHR ''x'') @ [NL]) 1 2))"
  by (simp add: mk_chunk_def show_nat_1 NL_def)

lemma chunk2_y: "CHR ''y'' \<in> set (ch_content (mk_chunk ''a.txt'' (''y'' @ [NL]) 2 3))"
  by (simp add: mk_chunk_def)

lemma isTextFile_txt: "isTextFile ''a.txt''"
  by (simp add: isTextFile_def extname_def basename_def toLowerCase_def lower_char_def
      textExtensions_def Let_def)

lemma failing_embed:
  "embed_chunks failing_embedding_env mk (chunkContent two_chunk_file ''a.txt'') 0 []
     = (Some ''embedding failed'',
        [mk 0 (mk_chunk ''a.txt'' (replicate 2000 (CHR ''x'') @ [NL]) 1 2) [1]])"
  using chunk1_no_y chunk2_y
  by (simp add: two_chunk_chunks failing_embedding_env_def example_env_def)

lemma failing_process_file:
  "process_file failing_embedding_env None ''/src'' ''p'' False empty_object 1 ''a.txt''
       (init_loop_state jm vs)
     = (init_loop_state jm vs)
         \<lparr>ls_currentFiles := [''a.txt''], ls_fileIndex := 1,
          ls_documents := [mk_document ''p'' ''a.txt'' two_chunk_file 100 two_chunk_file 2 0
                             (mk_chunk ''a.txt'' (replicate 2000 (CHR ''x'') @ [NL]) 1 2) [1]]\<rparr>"
proof -
  have sz: "\<not> length two_chunk_file > 1024 * 1024" by (simp add: two_chunk_file_def)
  have l2: "length (chunkContent two_chunk_file ''a.txt'') = 2" by (simp add: two_chunk_chunks)
  have env: "e_stat failing_embedding_env p = Inr 100"
    "e_readFile failing_embedding_env p = Inr two_chunk_file"
    "e_md5 failing_embedding_env s = s" for p s
    by (simp_all add: failing_embedding_env_def example_env_def)
  show ?thesis
    using sz
    by (simp add: process_file_def Let_def isTextFile_txt env index_file_def failing_embed l2
        file_error_def logMethod_def init_loop_state_def)
qed

text \<open>
  Claim C4 (error policy).  The claim says that a file whose embedding fails is caught, logged and
  skipped.  The handler does catch the error and the run does continue, but the documents of the
  chunks embedded before the failing one were already pushed to the batch: in the run below the
  file \<^verbatim>\<open>a.txt\<close> has two chunks, the provider rejects the second one, the run returns a
  result with no file processed and one chunk indexed, and the store, which held no chunk of the
  file before, holds its first chunk afterwards.
\<close>

theorem indexDirectory_embedding_failure_keeps_partial_file:
  "length (chunkContent two_chunk_file ''a.txt'') = 2
   \<and> chunks_of example_store ''p'' ''a.txt'' = []
   \<and> (\<exists>res. fst (indexDirectory failing_embedding_env True ''/src'' ''p'' [] False None
                     example_jm example_store) = Inr res
          \<and> res_filesProcessed res = 0 \<and> res_chunksIndexed res = 1)
   \<and> length (chunks_of (snd (snd (indexDirectory failing_embedding_env True ''/src'' ''p'' [] False
                                     None example_jm example_store))) ''p'' ''a.txt'') = 1"
proof -
  let ?env = failing_embedding_env
  let ?R = "indexDirectory ?env True ''/src'' ''p'' [] False None example_jm example_store"
  let ?doc = "mk_document ''p'' ''a.txt'' two_chunk_file 100 two_chunk_file 2 0
                             (mk_chunk ''a.txt'' (replicate 2000 (CHR ''x'') @ [NL]) 1 2) [1]"
  have g: "e_glob ?env ''/src'' (defaultExcludes @ []) = Inr [''a.txt'']"
    by (simp add: failing_embedding_env_def example_env_def)
  have t1: "length (filter isTextFile [''a.txt'']) = 1" by (simp add: isTextFile_txt)
  have sink: "job_sink True None = None" by (simp add: job_sink_def)
  from indexDirectory_run[OF g, where d=False and pid="''p''" and has_jm=True and jobId=None
      and vs=example_store and jm=example_jm]
  obtain jm7 where run: "case delete_phase ?env None ''p'' False empty_object
                      (process_files ?env None ''/src'' ''p'' False empty_object 1 [''a.txt'']
                         (init_loop_state jm7 example_store)) of
                 Inl (e, st1) \<Rightarrow> fst ?R = Inl e \<and> snd (snd ?R) = ls_vs st1
               | Inr (n, st1) \<Rightarrow> ?R = save_phase ?env None ''/src'' ''p'' [] False 1 n st1"
    unfolding t1 sink by auto
  let ?st = "(init_loop_state jm7 example_store)
         \<lparr>ls_currentFiles := [''a.txt''], ls_fileIndex := 1, ls_documents := [?doc]\<rparr>"
  have pf: "process_files ?env None ''/src'' ''p'' False empty_object 1 [''a.txt''] (init_loop_state jm7 example_store) = ?st"
    unfolding process_files_def by (simp only: foldl.simps failing_process_file)
  have dp: "delete_phase ?env None ''p'' False empty_object ?st = Inr (0, ?st)"
    by (simp add: delete_phase_def)
  from run have R: "?R = save_phase ?env None ''/src'' ''p'' [] False 1 0 ?st"
    unfolding pf dp by simp
  have envs: "e_addDocuments_error ?env = None" "e_saveProjectMetadata_error ?env = None"
    by (simp_all add: failing_embedding_env_def example_env_def)
  have a: "\<exists>res. fst ?R = Inr res \<and> res_filesProcessed res = 0 \<and> res_chunksIndexed res = 1"
    unfolding R by (simp add: save_phase_def Let_def envs init_loop_state_def)
  have b: "length (chunks_of (snd (snd ?R)) ''p'' ''a.txt'') = 1"
    unfolding R
    by (simp add: save_phase_def Let_def envs init_loop_state_def chunks_of_def addDocuments_def
        saveProjectMetadata_def example_store_def example_doc_def mk_document_def)
  have c: "length (chunkContent two_chunk_file ''a.txt'') = 2" by (simp add: two_chunk_chunks)
  have d: "chunks_of example_store ''p'' ''a.txt'' = []"
    by (simp add: chunks_of_def example_store_def example_doc_def)
  from a b c d show ?thesis by blast
qed

end
